theory Spec2Isabelle
  imports Complex_Main
begin

section \<open>C strings and the gadget string comparison (string\_utils.cc)\<close>

text \<open>
  A \<open>const char *\<close> argument is modelled by the bytes it points to: a \<open>string\<close> that is
  read up to (and without) its first NUL byte, or up to its end when it has none.
  \<open>std::string::c_str()\<close> gives the same view of a \<open>std::string\<close>.
\<close>

definition c_str :: "string \<Rightarrow> string" where
  "c_str s = takeWhile (\<lambda>c. c \<noteq> CHR 0x00) s"

definition strlen :: "string \<Rightarrow> nat" where
  "strlen s = length (c_str s)"

text \<open>The value of a byte as \<open>unsigned char\<close>, and \<open>tolower\<close> in the C locale.\<close>

definition uchar :: "char \<Rightarrow> int" where
  "uchar c = of_char c"

definition tolower :: "int \<Rightarrow> int" where
  "tolower c = (if 65 \<le> c \<and> c \<le> 90 then c + 32 else c)"

text \<open>
  \<open>strcmp\<close> and \<open>strcasecmp\<close> on the bytes before the terminator: the difference of
  the first two bytes that differ (an ended string counts as the byte 0 there).
\<close>

fun strcmp_bytes :: "string \<Rightarrow> string \<Rightarrow> int" where
  "strcmp_bytes [] [] = 0"
| "strcmp_bytes [] (d # ds) = 0 - uchar d"
| "strcmp_bytes (c # cs) [] = uchar c - 0"
| "strcmp_bytes (c # cs) (d # ds) =
     (if uchar c = uchar d then strcmp_bytes cs ds else uchar c - uchar d)"

fun strcasecmp_bytes :: "string \<Rightarrow> string \<Rightarrow> int" where
  "strcasecmp_bytes [] [] = 0"
| "strcasecmp_bytes [] (d # ds) = 0 - tolower (uchar d)"
| "strcasecmp_bytes (c # cs) [] = tolower (uchar c) - 0"
| "strcasecmp_bytes (c # cs) (d # ds) =
     (if tolower (uchar c) = tolower (uchar d) then strcasecmp_bytes cs ds
      else tolower (uchar c) - tolower (uchar d))"

definition strcmp :: "string \<Rightarrow> string \<Rightarrow> int" where
  "strcmp s1 s2 = strcmp_bytes (c_str s1) (c_str s2)"

definition strcasecmp :: "string \<Rightarrow> string \<Rightarrow> int" where
  "strcasecmp s1 s2 = strcasecmp_bytes (c_str s1) (c_str s2)"

text \<open>
  \<open>GadgetStrCmp\<close>: the build-time switch \<open>GADGET_CASE_SENSITIVE\<close> is the first argument
  (\<open>False\<close> in the default configuration).
\<close>

definition GadgetStrCmp :: "bool \<Rightarrow> string \<Rightarrow> string \<Rightarrow> int" where
  "GadgetStrCmp GADGET_CASE_SENSITIVE s1 s2 =
     (if GADGET_CASE_SENSITIVE then strcmp s1 s2 else strcasecmp s1 s2)"

text \<open>What "equal under the comparison policy" means, stated on the strings themselves.\<close>

definition same_name :: "bool \<Rightarrow> string \<Rightarrow> string \<Rightarrow> bool" where
  "same_name GADGET_CASE_SENSITIVE s1 s2 =
     (if GADGET_CASE_SENSITIVE then c_str s1 = c_str s2
      else map (tolower \<circ> uchar) (c_str s1) = map (tolower \<circ> uchar) (c_str s2))"


section \<open>Elements and the collection's state (elements.cc, class Elements::Impl)\<close>

text \<open>
  An element pointer is an address; a nullable pointer is an \<open>option\<close>. The class
  \<open>BasicElement\<close> is not among the sources: an element object is the record of what
  the collection reads through its accessors, and its virtual methods (\<open>IsPointIn\<close>,
  \<open>OnMouseEvent\<close>, \<open>OnDragEvent\<close>, \<open>Draw\<close>, \<open>Layout\<close>) are arguments of the
  functions that call them.
\<close>

type_synonym ptr = nat

type_synonym canvas_ref = nat

record BasicElement =
  GetName :: string
  IsVisible :: bool
  GetPixelX :: real
  GetPixelY :: real
  GetPixelPinX :: real
  GetPixelPinY :: real
  GetPixelWidth :: real
  GetPixelHeight :: real
  GetRotation :: real
  IsPositionChanged :: bool
  IsSizeChanged :: bool
  GetMaskCanvas :: "canvas_ref option"

text \<open>The cached canvas: the collection reads its pixel dimensions only.\<close>

record Canvas =
  GetWidth :: nat
  GetHeight :: nat

text \<open>
  The data members of \<open>Elements::Impl\<close>; a member \<open>x_\<close> of the class is the field
  \<open>m_x\<close> here (a name cannot end in an underscore). The factory and the view are
  arguments of the functions that use them.
\<close>

record Impl =
  m_owner :: "ptr option"
  m_children :: "ptr list"
  m_width :: real
  m_height :: real
  m_canvas :: "Canvas option"
  m_count_changed :: bool
  m_has_popup :: bool
  m_scrollable :: bool

text \<open>
  The element objects: \<open>elements\<close> is the object at an address, \<open>alive\<close> says whether
  the object there has been constructed and not yet deleted.
\<close>

record Heap =
  elements :: "ptr \<Rightarrow> BasicElement"
  alive :: "ptr \<Rightarrow> bool"

record World =
  impl :: Impl
  heap :: Heap

definition Impl_ctor :: "ptr option \<Rightarrow> Impl" where
  "Impl_ctor owner =
     \<lparr>m_owner = owner, m_children = [], m_width = 0, m_height = 0, m_canvas = None,
      m_count_changed = True, m_has_popup = False, m_scrollable = False\<rparr>"

definition delete :: "ptr \<Rightarrow> Heap \<Rightarrow> Heap" where
  "delete e h = h\<lparr>alive := (alive h)(e := False)\<rparr>"

text \<open>
  \<open>int\<close> is the 32-bit C++ \<open>int\<close>: a size or an iterator difference converted to it
  wraps around.
\<close>

definition static_cast_int :: "nat \<Rightarrow> int" where
  "static_cast_int n = (int n + 2 ^ 31) mod 2 ^ 32 - 2 ^ 31"

definition GetCount :: "ptr list \<Rightarrow> int" where
  "GetCount children = static_cast_int (length children)"

subsection \<open>AppendElement, InsertElement, RemoveElement\<close>

text \<open>
  \<open>CreateElement tag_name parent name\<close> is the factory's method (the view argument is
  fixed); it returns the new element's address, or NULL. \<open>OnElementAdd\<close> is the view's
  hook.
\<close>

type_synonym factory = "string \<Rightarrow> ptr option \<Rightarrow> string option \<Rightarrow> Heap \<Rightarrow> ptr option \<times> Heap"

definition AppendElement ::
  "factory \<Rightarrow> (Heap \<Rightarrow> ptr \<Rightarrow> bool) \<Rightarrow> string \<Rightarrow> string option \<Rightarrow> World \<Rightarrow> ptr option \<times> World" where
  "AppendElement CreateElement OnElementAdd tag_name name w =
     (case CreateElement tag_name (m_owner (impl w)) name (heap w) of
        (None, h) \<Rightarrow> (None, w\<lparr>heap := h\<rparr>)
      | (Some e, h) \<Rightarrow>
          if OnElementAdd h e
          then (Some e, \<lparr>impl = (impl w)\<lparr>m_children := m_children (impl w) @ [e],
                                         m_count_changed := True\<rparr>,
                         heap = h\<rparr>)
          else (None, w\<lparr>heap := delete e h\<rparr>))"

text \<open>
  \<open>std::find\<close> over the vector, as the position found (\<open>length\<close> of the vector for
  \<open>end()\<close>), and \<open>vector::insert\<close> before a position.
\<close>

fun std_find :: "ptr list \<Rightarrow> ptr option \<Rightarrow> nat" where
  "std_find [] v = 0"
| "std_find (x # xs) v = (if Some x = v then 0 else Suc (std_find xs v))"

definition vector_insert :: "'a list \<Rightarrow> nat \<Rightarrow> 'a \<Rightarrow> 'a list" where
  "vector_insert xs pos e = take pos xs @ e # drop pos xs"

definition vector_erase :: "'a list \<Rightarrow> nat \<Rightarrow> 'a list" where
  "vector_erase xs pos = take pos xs @ drop (Suc pos) xs"

definition InsertElement ::
  "factory \<Rightarrow> (Heap \<Rightarrow> ptr \<Rightarrow> bool) \<Rightarrow> string \<Rightarrow> ptr option \<Rightarrow> string option \<Rightarrow> World
     \<Rightarrow> ptr option \<times> World" where
  "InsertElement CreateElement OnElementAdd tag_name before name w =
     (case CreateElement tag_name (m_owner (impl w)) name (heap w) of
        (None, h) \<Rightarrow> (None, w\<lparr>heap := h\<rparr>)
      | (Some e, h) \<Rightarrow>
          if OnElementAdd h e
          then (let ite = std_find (m_children (impl w)) before
                in (Some e, \<lparr>impl = (impl w)\<lparr>m_children := vector_insert (m_children (impl w)) ite e,
                                              m_count_changed := True\<rparr>,
                             heap = h\<rparr>))
          else (None, w\<lparr>heap := delete e h\<rparr>))"

text \<open>\<open>RemoveElement\<close>; the view's \<open>OnElementRemove\<close> hook acts on the view only.\<close>

definition RemoveElement :: "ptr option \<Rightarrow> World \<Rightarrow> bool \<times> World" where
  "RemoveElement element w =
     (let ite = std_find (m_children (impl w)) element
      in if ite = length (m_children (impl w)) then (False, w)
         else (True, \<lparr>impl = (impl w)\<lparr>m_children := vector_erase (m_children (impl w)) ite,
                                      m_count_changed := True\<rparr>,
                      heap = delete (m_children (impl w) ! ite) (heap w)\<rparr>))"

definition RemoveAllElements :: "World \<Rightarrow> World" where
  "RemoveAllElements w =
     \<lparr>impl = (impl w)\<lparr>m_children := [], m_count_changed := True\<rparr>,
      heap = fold delete (m_children (impl w)) (heap w)\<rparr>"

subsection \<open>GetItemByIndex, GetItemByName\<close>

definition GetItemByIndex :: "ptr list \<Rightarrow> int \<Rightarrow> ptr option" where
  "GetItemByIndex children index =
     (if index \<ge> 0 \<and> index < static_cast_int (length children)
      then Some (children ! nat index) else None)"

text \<open>
  The loop of \<open>GetIndexByName\<close>: \<open>i\<close> is the iterator's distance from \<open>begin()\<close>, the
  list is what lies from the iterator to \<open>end()\<close>. \<open>h\<close> holds the children's objects.
\<close>

fun GetIndexByName_loop :: "bool \<Rightarrow> Heap \<Rightarrow> string \<Rightarrow> ptr list \<Rightarrow> nat \<Rightarrow> int" where
  "GetIndexByName_loop cs h name [] i = -1"
| "GetIndexByName_loop cs h name (e # es) i =
     (if GadgetStrCmp cs (c_str (GetName (elements h e))) name = 0 then static_cast_int i
      else GetIndexByName_loop cs h name es (Suc i))"

definition GetIndexByName :: "bool \<Rightarrow> World \<Rightarrow> string option \<Rightarrow> int" where
  "GetIndexByName cs w name =
     (case name of
        None \<Rightarrow> -1
      | Some n \<Rightarrow> if strlen n = 0 then -1
                  else GetIndexByName_loop cs (heap w) n (m_children (impl w)) 0)"

definition GetItemByName :: "bool \<Rightarrow> World \<Rightarrow> string option \<Rightarrow> ptr option" where
  "GetItemByName cs w name =
     GetItemByIndex (m_children (impl w)) (GetIndexByName cs w name)"

subsection \<open>Example collaborators\<close>

text \<open>
  Modelled from the spec: \<open>ElementFactory::CreateElement\<close> (element\_factory.cc is not
  among the sources). Tag names are matched case-sensitively against the registered
  table; an unregistered tag name yields NULL. The new object is constructed at the
  address \<open>p\<close> that the allocator hands out, with the given name.
\<close>

definition new_element :: "string option \<Rightarrow> BasicElement" where
  "new_element name =
     \<lparr>GetName = (case name of None \<Rightarrow> [] | Some n \<Rightarrow> c_str n), IsVisible = True,
      GetPixelX = 0, GetPixelY = 0, GetPixelPinX = 0, GetPixelPinY = 0,
      GetPixelWidth = 0, GetPixelHeight = 0, GetRotation = 0,
      IsPositionChanged = True, IsSizeChanged = True, GetMaskCanvas = None\<rparr>"

definition ElementFactory_CreateElement :: "string list \<Rightarrow> ptr \<Rightarrow> factory" where
  "ElementFactory_CreateElement registered p tag_name parent name h =
     (if tag_name \<in> set registered
      then (Some p, \<lparr>elements = (elements h)(p := new_element name),
                     alive = (alive h)(p := True)\<rparr>)
      else (None, h))"

definition empty_heap :: Heap where
  "empty_heap = \<lparr>elements = (\<lambda>p. new_element None), alive = (\<lambda>p. False)\<rparr>"

definition muffin_pie_factory :: "ptr \<Rightarrow> factory" where
  "muffin_pie_factory p = ElementFactory_CreateElement [''muffin'', ''pie''] p"

text \<open>Two small collections for the examples: three named children, and one unnamed child.\<close>

definition named_world :: World where
  "named_world =
     \<lparr>impl = (Impl_ctor None)\<lparr>m_children := [10, 11, 12]\<rparr>,
      heap = \<lparr>elements = (\<lambda>p. new_element (if p = 10 then Some ''Foo'' else if p = 11 then Some ''bar''
                                            else if p = 12 then Some ''BAR'' else Some [])),
              alive = (\<lambda>p. p \<in> {10, 11, 12})\<rparr>\<rparr>"

definition unnamed_world :: World where
  "unnamed_world =
     \<lparr>impl = (Impl_ctor None)\<lparr>m_children := [10, 11]\<rparr>,
      heap = \<lparr>elements = (\<lambda>p. new_element (if p = 10 then Some [] else Some ''bar'')),
              alive = (\<lambda>p. p \<in> {10, 11})\<rparr>\<rparr>"

section \<open>Event dispatch into the children (Elements::Impl::OnMouseEvent, OnDragEvent)\<close>

text \<open>
  The header event.h is not among the sources. An event result and an event type are
  enumerations; a position event carries its type and its coordinates (a mouse or a drag
  event carries more, which the collection copies unchanged).
\<close>

datatype EventResult = EVENT_RESULT_UNHANDLED | EVENT_RESULT_HANDLED | EVENT_RESULT_CANCELED

datatype EventType =
    EVENT_MOUSE_DOWN | EVENT_MOUSE_UP | EVENT_MOUSE_CLICK | EVENT_MOUSE_DBLCLICK
  | EVENT_MOUSE_MOVE | EVENT_MOUSE_OUT | EVENT_MOUSE_OVER | EVENT_MOUSE_WHEEL
  | EVENT_DRAG_DROP | EVENT_DRAG_OUT | EVENT_DRAG_OVER | EVENT_DRAG_MOTION

record PositionEvent =
  GetType :: EventType
  GetX :: real
  GetY :: real

text \<open>
  What can go wrong: a failed \<open>ASSERT\<close> (debug build), the use of an element that has
  been deleted, the use of a vector iterator after the vector was changed, and the
  conversion to \<open>size_t\<close> of a floating-point value outside its range. The model does
  not follow the vector's capacity: it counts every change of the vector as invalidating
  an iterator into it.
\<close>

datatype error = AssertionFailed | UseAfterFree | InvalidIterator | UndefinedConversion

text \<open>
  The methods of other classes that the dispatch calls. \<open>IsPointIn\<close>, \<open>OnMouseEvent\<close>
  and \<open>OnDragEvent\<close> are virtual methods of the child (the \<open>direct\<close> argument is
  \<open>false\<close> in every call); an event handler may change the whole world, so it returns
  the new one together with its result and the values it has written through its output
  pointers (\<open>fired_element\<close>, and for the mouse \<open>in_element\<close>).
  \<open>SelfCoordToChildCoord\<close> is the owner's method, \<open>ParentCoordToChildCoord\<close> is in
  math\_utils.
\<close>

record Methods =
  IsPointIn :: "World \<Rightarrow> ptr \<Rightarrow> real \<Rightarrow> real \<Rightarrow> bool"
  BasicElement_OnMouseEvent ::
    "ptr \<Rightarrow> PositionEvent \<Rightarrow> World \<Rightarrow> (EventResult \<times> ptr option \<times> ptr option) \<times> World"
  BasicElement_OnDragEvent ::
    "ptr \<Rightarrow> PositionEvent \<Rightarrow> World \<Rightarrow> (EventResult \<times> ptr option) \<times> World"
  SelfCoordToChildCoord :: "BasicElement \<Rightarrow> BasicElement \<Rightarrow> real \<Rightarrow> real \<Rightarrow> real \<times> real"
  ParentCoordToChildCoord ::
    "real \<Rightarrow> real \<Rightarrow> real \<Rightarrow> real \<Rightarrow> real \<Rightarrow> real \<Rightarrow> real \<Rightarrow> real \<times> real"

text \<open>
  Modelled from the spec: \<open>DegreesToRadians\<close> of math\_utils (not among the sources).
\<close>

definition DegreesToRadians :: "real \<Rightarrow> real" where
  "DegreesToRadians degrees = degrees * pi / 180"

definition MapChildPositionEvent :: "Methods \<Rightarrow> PositionEvent \<Rightarrow> ptr \<Rightarrow> World \<Rightarrow> PositionEvent" where
  "MapChildPositionEvent M org_event child w =
     (let c = elements (heap w) child;
          (child_x, child_y) =
            (case m_owner (impl w) of
               Some owner \<Rightarrow>
                 SelfCoordToChildCoord M (elements (heap w) owner) c (GetX org_event) (GetY org_event)
             | None \<Rightarrow>
                 ParentCoordToChildCoord M (GetX org_event) (GetY org_event)
                   (GetPixelX c) (GetPixelY c) (GetPixelPinX c) (GetPixelPinY c)
                   (DegreesToRadians (GetRotation c)))
      in org_event\<lparr>GetX := child_x, GetY := child_y\<rparr>)"

text \<open>
  Modelled from the spec: \<open>ScopedDeathDetector\<close> (not among the sources). A pointer
  variable registered with the view is set to NULL when the object it points to is
  destroyed during the call that follows. An address names one object for ever (the
  address of a deleted object is not used again), so the variable is NULL after the call
  exactly when its object is no longer alive.
\<close>

definition ScopedDeathDetector :: "World \<Rightarrow> ptr option \<Rightarrow> ptr option" where
  "ScopedDeathDetector w' p =
     (case p of None \<Rightarrow> None | Some e \<Rightarrow> if alive (heap w') e then Some e else None)"

text \<open>
  The loop of \<open>OnMouseEvent\<close>. The number argument is the position of the reverse
  iterator: the children below that index are still to be visited, and \<open>0\<close> is
  \<open>rend()\<close>. \<open>in_element\<close> is the value of \<open>*in_element\<close>; \<open>*fired_element\<close> is NULL
  whenever the loop goes on. The result is the returned value with \<open>*fired_element\<close> and
  \<open>*in_element\<close>, and the world.
\<close>

fun OnMouseEvent_loop ::
  "Methods \<Rightarrow> PositionEvent \<Rightarrow> nat \<Rightarrow> ptr option \<Rightarrow> World
     \<Rightarrow> error + (EventResult \<times> ptr option \<times> ptr option) \<times> World" where
  "OnMouseEvent_loop M event 0 in_element w =
     Inr ((EVENT_RESULT_UNHANDLED, None, in_element), w)"
| "OnMouseEvent_loop M event (Suc i) in_element w =
     (if length (m_children (impl w)) \<le> i then Inl InvalidIterator
      else let ite = m_children (impl w) ! i in
        if \<not> alive (heap w) ite then Inl UseAfterFree
        else if \<not> IsVisible (elements (heap w) ite) then OnMouseEvent_loop M event i in_element w
        else let new_event = MapChildPositionEvent M event ite w in
          if IsPointIn M w ite (GetX new_event) (GetY new_event)
          then (case BasicElement_OnMouseEvent M ite new_event w of
                  ((result, fired_element, d), w') \<Rightarrow>
                    let child = ScopedDeathDetector w' (Some ite);
                        descendant_in_element = ScopedDeathDetector w' d
                    in if child = None then Inr ((result, fired_element, in_element), w')
                       else let in_element' =
                                  (if in_element = None
                                   then (if descendant_in_element \<noteq> None
                                         then descendant_in_element else child)
                                   else in_element)
                            in if fired_element \<noteq> None
                               then Inr ((result, fired_element, in_element'), w')
                               else if m_children (impl w') \<noteq> m_children (impl w)
                               then Inl InvalidIterator
                               else OnMouseEvent_loop M event i in_element' w')
          else OnMouseEvent_loop M event i in_element w)"

definition OnMouseEvent ::
  "Methods \<Rightarrow> PositionEvent \<Rightarrow> World \<Rightarrow> error + (EventResult \<times> ptr option \<times> ptr option) \<times> World" where
  "OnMouseEvent M event w =
     (if \<not> (GetType event \<noteq> EVENT_MOUSE_OVER \<and> GetType event \<noteq> EVENT_MOUSE_OUT)
      then Inl AssertionFailed
      else OnMouseEvent_loop M event (length (m_children (impl w))) None w)"

text \<open>The loop of \<open>OnDragEvent\<close>, in the same way; the result carries \<open>*fired_element\<close>.\<close>

fun OnDragEvent_loop ::
  "Methods \<Rightarrow> PositionEvent \<Rightarrow> nat \<Rightarrow> World \<Rightarrow> error + (EventResult \<times> ptr option) \<times> World" where
  "OnDragEvent_loop M event 0 w = Inr ((EVENT_RESULT_UNHANDLED, None), w)"
| "OnDragEvent_loop M event (Suc i) w =
     (if length (m_children (impl w)) \<le> i then Inl InvalidIterator
      else let ite = m_children (impl w) ! i in
        if \<not> alive (heap w) ite then Inl UseAfterFree
        else if \<not> IsVisible (elements (heap w) ite) then OnDragEvent_loop M event i w
        else let new_event = MapChildPositionEvent M event ite w in
          if IsPointIn M w ite (GetX new_event) (GetY new_event)
          then (case BasicElement_OnDragEvent M ite new_event w of
                  ((result, fired_element), w') \<Rightarrow>
                    let child = ScopedDeathDetector w' (Some ite)
                    in if child = None \<or> fired_element \<noteq> None
                       then Inr ((result, fired_element), w')
                       else if m_children (impl w') \<noteq> m_children (impl w)
                       then Inl InvalidIterator
                       else OnDragEvent_loop M event i w')
          else OnDragEvent_loop M event i w)"

definition OnDragEvent ::
  "Methods \<Rightarrow> PositionEvent \<Rightarrow> World \<Rightarrow> error + (EventResult \<times> ptr option) \<times> World" where
  "OnDragEvent M event w =
     (if \<not> (GetType event = EVENT_DRAG_MOTION) then Inl AssertionFailed
      else OnDragEvent_loop M event (length (m_children (impl w))) w)"

subsection \<open>How the loop meets a child\<close>

text \<open>
  A child is \<open>passed_over\<close> when the loop goes by it without calling its handler (it is
  invisible, or the remapped point is not in it); it is a \<open>candidate\<close> when its handler
  is called.
\<close>

definition passed_over :: "Methods \<Rightarrow> PositionEvent \<Rightarrow> World \<Rightarrow> ptr \<Rightarrow> bool" where
  "passed_over M event w c =
     (alive (heap w) c \<and>
      (\<not> IsVisible (elements (heap w) c) \<or>
       \<not> IsPointIn M w c (GetX (MapChildPositionEvent M event c w))
                          (GetY (MapChildPositionEvent M event c w))))"

definition candidate :: "Methods \<Rightarrow> PositionEvent \<Rightarrow> World \<Rightarrow> ptr \<Rightarrow> bool" where
  "candidate M event w c =
     (alive (heap w) c \<and> IsVisible (elements (heap w) c) \<and>
      IsPointIn M w c (GetX (MapChildPositionEvent M event c w))
                      (GetY (MapChildPositionEvent M event c w)))"

subsection \<open>Example collaborators for the dispatch\<close>

text \<open>
  Modelled from the spec: the default \<open>BasicElement::IsPointIn\<close> (basic\_element.cc is
  not among the sources): the point lies within \<open>[0, width] \<times> [0, height]\<close> of the
  element's own space.
\<close>

definition BasicElement_IsPointIn :: "World \<Rightarrow> ptr \<Rightarrow> real \<Rightarrow> real \<Rightarrow> bool" where
  "BasicElement_IsPointIn w e x y =
     (0 \<le> x \<and> 0 \<le> y \<and> x \<le> GetPixelWidth (elements (heap w) e)
                      \<and> y \<le> GetPixelHeight (elements (heap w) e))"

text \<open>
  Modelled from the spec: \<open>ParentCoordToChildCoord\<close> of math\_utils (not among the
  sources), the inverse of the compositing transform (translate to the child's position,
  rotate, translate back by the pin).
\<close>

definition math_ParentCoordToChildCoord ::
  "real \<Rightarrow> real \<Rightarrow> real \<Rightarrow> real \<Rightarrow> real \<Rightarrow> real \<Rightarrow> real \<Rightarrow> real \<times> real" where
  "math_ParentCoordToChildCoord parent_x parent_y child_x_pos child_y_pos child_pin_x child_pin_y
       rotation_radians =
     ((parent_x - child_x_pos) * cos rotation_radians
        + (parent_y - child_y_pos) * sin rotation_radians + child_pin_x,
      (parent_y - child_y_pos) * cos rotation_radians
        - (parent_x - child_x_pos) * sin rotation_radians + child_pin_y)"

text \<open>
  Event handlers for the examples, one kind per element: an element without a handler
  (nothing fires), one whose handler fires and returns a result, one whose handler
  removes the element itself from the collection, and one that destroys the descendant
  it reports as the element under the mouse. A handler that fires leaves a mark in its
  element's name.
\<close>

datatype script =
    NoHandler
  | Fires EventResult
  | RemovesItself EventResult
  | DestroysDescendant ptr EventResult

definition mark_fired :: "ptr \<Rightarrow> World \<Rightarrow> World" where
  "mark_fired e w =
     w\<lparr>heap := (heap w)\<lparr>elements := (elements (heap w))
                             (e := (elements (heap w) e)\<lparr>GetName := ''fired''\<rparr>)\<rparr>\<rparr>"

definition scripted_OnMouseEvent ::
  "(ptr \<Rightarrow> script) \<Rightarrow> ptr \<Rightarrow> PositionEvent \<Rightarrow> World
     \<Rightarrow> (EventResult \<times> ptr option \<times> ptr option) \<times> World" where
  "scripted_OnMouseEvent scripts e event w =
     (case scripts e of
        NoHandler \<Rightarrow> ((EVENT_RESULT_UNHANDLED, None, Some e), w)
      | Fires r \<Rightarrow> ((r, Some e, Some e), mark_fired e w)
      | RemovesItself r \<Rightarrow> ((r, None, None), snd (RemoveElement (Some e) w))
      | DestroysDescendant x r \<Rightarrow> ((r, None, Some x), w\<lparr>heap := delete x (heap w)\<rparr>))"

definition scripted_OnDragEvent ::
  "(ptr \<Rightarrow> script) \<Rightarrow> ptr \<Rightarrow> PositionEvent \<Rightarrow> World \<Rightarrow> (EventResult \<times> ptr option) \<times> World" where
  "scripted_OnDragEvent scripts e event w =
     (case scripts e of
        NoHandler \<Rightarrow> ((EVENT_RESULT_UNHANDLED, None), w)
      | Fires r \<Rightarrow> ((r, Some e), mark_fired e w)
      | RemovesItself r \<Rightarrow> ((r, None), snd (RemoveElement (Some e) w))
      | DestroysDescendant x r \<Rightarrow> ((r, None), w\<lparr>heap := delete x (heap w)\<rparr>))"

definition scripted :: "(ptr \<Rightarrow> script) \<Rightarrow> Methods" where
  "scripted scripts =
     \<lparr>IsPointIn = BasicElement_IsPointIn,
      BasicElement_OnMouseEvent = scripted_OnMouseEvent scripts,
      BasicElement_OnDragEvent = scripted_OnDragEvent scripts,
      SelfCoordToChildCoord = (\<lambda>owner c x y.
         math_ParentCoordToChildCoord x y (GetPixelX c) (GetPixelY c)
           (GetPixelPinX c) (GetPixelPinY c) (DegreesToRadians (GetRotation c))),
      ParentCoordToChildCoord = math_ParentCoordToChildCoord\<rparr>"

text \<open>
  The scene of the examples: the root collection of a view with a rectangle of 100 by 100
  at the origin (element 1), a second one named "top" at (50, 50) above it (element 2),
  and an invisible one above both (element 4); element 3 is a descendant of element 2.
\<close>

definition rect :: "string \<Rightarrow> real \<Rightarrow> real \<Rightarrow> real \<Rightarrow> real \<Rightarrow> BasicElement" where
  "rect n x y width height =
     (new_element (Some n))\<lparr>GetPixelX := x, GetPixelY := y,
                              GetPixelWidth := width, GetPixelHeight := height\<rparr>"

definition scene :: World where
  "scene =
     \<lparr>impl = (Impl_ctor None)\<lparr>m_children := [1, 2, 4]\<rparr>,
      heap = \<lparr>elements = (\<lambda>p. if p = 1 then rect '''' 0 0 100 100
                                else if p = 2 then rect ''top'' 50 50 100 100
                                else if p = 3 then rect ''inner'' 0 0 100 100
                                else (rect ''hidden'' 0 0 200 200)\<lparr>IsVisible := False\<rparr>),
              alive = (\<lambda>p. p \<in> {1, 2, 3, 4})\<rparr>\<rparr>"

definition mouse_down :: PositionEvent where
  "mouse_down = \<lparr>GetType = EVENT_MOUSE_DOWN, GetX = 75, GetY = 75\<rparr>"

definition drag_motion :: PositionEvent where
  "drag_motion = \<lparr>GetType = EVENT_DRAG_MOTION, GetX = 75, GetY = 75\<rparr>"

text \<open>
  Four settings of the handlers: "top" removes itself; "top" destroys its descendant 3
  and fires nothing; "top" has no handler; and "top" fires and returns
  \<open>EVENT_RESULT_UNHANDLED\<close>. The rectangle at the origin fires and returns
  \<open>EVENT_RESULT_HANDLED\<close> in all of them.
\<close>

definition top_removes_itself :: Methods where
  "top_removes_itself =
     scripted (\<lambda>p. if p = 2 then RemovesItself EVENT_RESULT_CANCELED else Fires EVENT_RESULT_HANDLED)"

definition top_destroys_descendant :: Methods where
  "top_destroys_descendant =
     scripted (\<lambda>p. if p = 2 then DestroysDescendant 3 EVENT_RESULT_UNHANDLED
                    else Fires EVENT_RESULT_HANDLED)"



section \<open>Layout and drawing (Elements::Impl::Layout, UpdateChildExtent, Draw)\<close>

text \<open>
  A \<open>double\<close> is modelled by a real number. \<open>ceil\<close> is the C function;
  \<open>static_cast<size_t>\<close> of a \<open>double\<close> truncates towards zero and is undefined when the
  truncated value is not a \<open>size_t\<close> (of 64 bits here).
\<close>

definition ceil :: "real \<Rightarrow> real" where
  "ceil x = of_int \<lceil>x\<rceil>"

definition static_cast_size_t :: "real \<Rightarrow> nat option" where
  "static_cast_size_t x = (if -1 < x \<and> x < 2 ^ 64 then Some (nat \<lfloor>x\<rfloor>) else None)"

text \<open>
  What is called on the canvas and on the graphics object, in order. A child's canvas and
  a mask are references; a colour is its three components.
\<close>

datatype canvas_call =
    Destroy
  | NewCanvas_call nat nat
  | ClearCanvas
  | IntersectRectClipRegion real real real real
  | PushState
  | PopState
  | TranslateCoordinates real real
  | RotateCoordinates real
  | DrawCanvas real real canvas_ref
  | DrawCanvasWithMask real real canvas_ref real real canvas_ref
  | DrawLine real real real real real "real \<times> real \<times> real"

text \<open>
  The methods of other classes that layout and drawing call, and what they read from the
  view. \<open>Layout\<close> and \<open>Draw\<close> are virtual methods of a child; they act on the element
  objects and do not reach this collection's own members. \<open>Draw\<close> returns the child's
  canvas (or NULL) and what it has written to \<open>*changed\<close>. \<open>GetChildExtentInParent\<close> is in
  math\_utils; \<open>NewCanvas\<close> is the graphics object's and may fail.
\<close>

record DrawMethods =
  BasicElement_Layout :: "ptr \<Rightarrow> Heap \<Rightarrow> Heap"
  BasicElement_Draw :: "ptr \<Rightarrow> Heap \<Rightarrow> (canvas_ref option \<times> bool) \<times> Heap"
  GetChildExtentInParent ::
    "real \<Rightarrow> real \<Rightarrow> real \<Rightarrow> real \<Rightarrow> real \<Rightarrow> real \<Rightarrow> real \<Rightarrow> real \<times> real"
  NewCanvas :: "nat \<Rightarrow> nat \<Rightarrow> Canvas option"
  view_GetWidth :: real
  view_GetHeight :: real
  GetPopupElement :: "ptr option"
  GetDebugMode :: int

subsection \<open>Layout\<close>

definition UpdateChildExtent :: "DrawMethods \<Rightarrow> BasicElement \<Rightarrow> real \<times> real \<Rightarrow> real \<times> real" where
  "UpdateChildExtent D child extent =
     (case extent of (extent_width, extent_height) \<Rightarrow>
      let x = GetPixelX child;
          y = GetPixelY child;
          pin_x = GetPixelPinX child;
          pin_y = GetPixelPinY child;
          width = GetPixelWidth child;
          height = GetPixelHeight child;
          est_maximum_extent = max pin_x (width - pin_x) + max pin_y (height - pin_y);
          child_extent_width = x + est_maximum_extent;
          child_extent_height = y + est_maximum_extent
      in if child_extent_width > extent_width \<or> child_extent_height > extent_height
         then (case GetChildExtentInParent D x y pin_x pin_y width height
                      (DegreesToRadians (GetRotation child)) of
                 (child_extent_width, child_extent_height) \<Rightarrow>
                   (if child_extent_width > extent_width then child_extent_width else extent_width,
                    if child_extent_height > extent_height then child_extent_height
                    else extent_height))
         else (extent_width, extent_height))"

definition need_update_extents :: "Heap \<Rightarrow> ptr list \<Rightarrow> bool" where
  "need_update_extents h children =
     list_ex (\<lambda>c. IsPositionChanged (elements h c) \<or> IsSizeChanged (elements h c)) children"

definition Layout :: "DrawMethods \<Rightarrow> World \<Rightarrow> error + World" where
  "Layout D w =
     (let h = fold (BasicElement_Layout D) (m_children (impl w)) (heap w);
          I = impl w
      in if m_scrollable I
         then (if need_update_extents h (m_children I) \<or> m_canvas I = None
               then (case fold (\<lambda>c. UpdateChildExtent D (elements h c)) (m_children I) (0, 0) of
                       (width, height) \<Rightarrow>
                         Inr \<lparr>impl = I\<lparr>m_width := width, m_height := height\<rparr>, heap = h\<rparr>)
               else Inr \<lparr>impl = I, heap = h\<rparr>)
         else (case m_owner I of
                 Some owner \<Rightarrow>
                   (case (static_cast_size_t (ceil (GetPixelWidth (elements h owner))),
                          static_cast_size_t (ceil (GetPixelHeight (elements h owner)))) of
                      (Some width, Some height) \<Rightarrow>
                        Inr \<lparr>impl = I\<lparr>m_width := real width, m_height := real height\<rparr>, heap = h\<rparr>
                    | _ \<Rightarrow> Inl UndefinedConversion)
               | None \<Rightarrow>
                   Inr \<lparr>impl = I\<lparr>m_width := view_GetWidth D, m_height := view_GetHeight D\<rparr>,
                        heap = h\<rparr>))"


subsection \<open>Draw\<close>

definition ClearPositionChanged :: "ptr \<Rightarrow> Heap \<Rightarrow> Heap" where
  "ClearPositionChanged e h =
     h\<lparr>elements := (elements h)(e := (elements h e)\<lparr>IsPositionChanged := False\<rparr>)\<rparr>"

text \<open>
  One turn of the first loop of \<open>Draw\<close>, for one child: it draws the child unless it is
  the popup element, and carries the heap, \<open>*changed\<close> and \<open>has_popup_\<close>; it gives
  the child's entry of the array \<open>children_canvas\<close>. The loop runs over the children
  from the given one on.
\<close>

definition Draw_child ::
  "DrawMethods \<Rightarrow> ptr \<Rightarrow> Heap \<Rightarrow> bool \<Rightarrow> bool \<Rightarrow> canvas_ref option \<times> Heap \<times> bool \<times> bool" where
  "Draw_child D element h changed has_popup_m =
     (let has_popup = (Some element = GetPopupElement D) in
      case (if has_popup then (None, h, changed)
            else (case BasicElement_Draw D element h of
                    ((canvas, child_changed), h') \<Rightarrow>
                      if IsPositionChanged (elements h' element)
                      then (canvas, ClearPositionChanged element h', changed \<or> True)
                      else (canvas, h', changed \<or> child_changed))) of
        (canvas, h1, changed1) \<Rightarrow>
          if has_popup \<noteq> has_popup_m then (canvas, h1, True, has_popup)
          else (canvas, h1, changed1, has_popup_m))"

fun Draw_children ::
  "DrawMethods \<Rightarrow> ptr list \<Rightarrow> Heap \<Rightarrow> bool \<Rightarrow> bool \<Rightarrow> canvas_ref option list \<times> Heap \<times> bool \<times> bool" where
  "Draw_children D [] h changed has_popup_m = ([], h, changed, has_popup_m)"
| "Draw_children D (element # rest) h changed has_popup_m =
     (case Draw_child D element h changed has_popup_m of
        (canvas, h1, changed1, has_popup1) \<Rightarrow>
          (case Draw_children D rest h1 changed1 has_popup1 of
             (canvases, result) \<Rightarrow> (canvas # canvases, result)))"

text \<open>The second loop: what compositing one child calls on the canvas, and all of them.\<close>

definition composite_child :: "BasicElement \<Rightarrow> canvas_ref \<Rightarrow> canvas_call list" where
  "composite_child element child_canvas =
     [PushState]
     @ (if GetRotation element = 0
        then [TranslateCoordinates (GetPixelX element - GetPixelPinX element)
                                   (GetPixelY element - GetPixelPinY element)]
        else [TranslateCoordinates (GetPixelX element) (GetPixelY element),
              RotateCoordinates (DegreesToRadians (GetRotation element)),
              TranslateCoordinates (- GetPixelPinX element) (- GetPixelPinY element)])
     @ [case GetMaskCanvas element of
          Some mask_canvas \<Rightarrow> DrawCanvasWithMask 0 0 child_canvas 0 0 mask_canvas
        | None \<Rightarrow> DrawCanvas 0 0 child_canvas]
     @ [PopState]"

fun composite :: "Heap \<Rightarrow> ptr list \<Rightarrow> canvas_ref option list \<Rightarrow> canvas_call list" where
  "composite h (element # rest) (Some child_canvas # canvases) =
     composite_child (elements h element) child_canvas @ composite h rest canvases"
| "composite h (element # rest) (None # canvases) = composite h rest canvases"
| "composite h children canvases = []"

definition debug_lines :: "Canvas \<Rightarrow> canvas_call list" where
  "debug_lines canvas =
     (let w = real (GetWidth canvas); h = real (GetHeight canvas) in
      [DrawLine 0 0 0 h 1 (0, 0, 0), DrawLine 0 0 w 0 1 (0, 0, 0),
       DrawLine w h 0 h 1 (0, 0, 0), DrawLine w h w 0 1 (0, 0, 0),
       DrawLine 0 0 w h 1 (0, 0, 0), DrawLine w 0 0 h 1 (0, 0, 0)])"

text \<open>
  \<open>Draw\<close> gives \<open>*changed\<close> and the returned canvas, the world, and the calls it has made
  on the cached canvas and on the graphics object.
\<close>

definition Draw ::
  "DrawMethods \<Rightarrow> World \<Rightarrow> error + (bool \<times> Canvas option) \<times> World \<times> canvas_call list" where
  "Draw D w =
     (let changed = m_count_changed (impl w);
          I = (impl w)\<lparr>m_count_changed := False\<rparr>
      in if m_children I = [] then Inr ((changed, None), \<lparr>impl = I, heap = heap w\<rparr>, [])
      else
        case (static_cast_size_t (ceil (m_width I)), static_cast_size_t (ceil (m_height I))) of
          (Some new_canvas_width, Some new_canvas_height) \<Rightarrow>
            let rebuild = (case m_canvas I of
                             None \<Rightarrow> True
                           | Some canvas \<Rightarrow> new_canvas_width \<noteq> GetWidth canvas
                                           \<or> new_canvas_height \<noteq> GetHeight canvas);
                destroyed = (if rebuild \<and> m_canvas I \<noteq> None then [Destroy] else [])
            in if rebuild \<and> (new_canvas_width = 0 \<or> new_canvas_height = 0)
               then Inr ((True, None), \<lparr>impl = I\<lparr>m_canvas := None\<rparr>, heap = heap w\<rparr>, destroyed)
               else if rebuild \<and> NewCanvas D new_canvas_width new_canvas_height = None
               then Inr ((True, None), \<lparr>impl = I\<lparr>m_canvas := None\<rparr>, heap = heap w\<rparr>,
                         destroyed @ [NewCanvas_call new_canvas_width new_canvas_height])
               else
                 let canvas = (if rebuild then NewCanvas D new_canvas_width new_canvas_height
                               else m_canvas I);
                     created = (if rebuild
                                then [NewCanvas_call new_canvas_width new_canvas_height] else [])
                 in case Draw_children D (m_children I) (heap w) (changed \<or> rebuild)
                           (m_has_popup I) of
                      (children_canvas, h, changed', has_popup') \<Rightarrow>
                        Inr ((changed', canvas),
                             \<lparr>impl = I\<lparr>m_canvas := canvas, m_has_popup := has_popup'\<rparr>, heap = h\<rparr>,
                             destroyed @ created
                             @ (if changed'
                                then [ClearCanvas,
                                      IntersectRectClipRegion 0 0 (m_width I) (m_height I)]
                                     @ composite h (m_children I) children_canvas
                                     @ (if GetDebugMode D > 0 then debug_lines (the canvas) else [])
                                else []))
        | _ \<Rightarrow> Inl UndefinedConversion)"

subsection \<open>What the statements about Draw speak of\<close>

text \<open>
  The cached canvas is stale when there is none or when the pixel dimensions computed
  from \<open>width_\<close> and \<open>height_\<close> are not its own. The children are idle when, drawn one
  after the other from the given heap, every child that is not the popup element reports
  no change and has its position-changed flag down after its own \<open>Draw\<close>.
\<close>

definition canvas_stale :: "World \<Rightarrow> bool" where
  "canvas_stale w =
     (case m_canvas (impl w) of
        None \<Rightarrow> True
      | Some canvas \<Rightarrow>
          static_cast_size_t (ceil (m_width (impl w))) \<noteq> Some (GetWidth canvas)
          \<or> static_cast_size_t (ceil (m_height (impl w))) \<noteq> Some (GetHeight canvas))"

fun children_idle :: "DrawMethods \<Rightarrow> ptr list \<Rightarrow> Heap \<Rightarrow> bool" where
  "children_idle D [] h = True"
| "children_idle D (c # cs) h =
     (if Some c = GetPopupElement D then children_idle D cs h
      else (case BasicElement_Draw D c h of
              ((canvas, child_changed), h') \<Rightarrow>
                \<not> child_changed \<and> \<not> IsPositionChanged (elements h' c) \<and> children_idle D cs h'))"


definition NewCanvas_sized :: "DrawMethods \<Rightarrow> bool" where
  "NewCanvas_sized D =
     (\<forall>width height canvas. NewCanvas D width height = Some canvas \<longrightarrow>
        GetWidth canvas = width \<and> GetHeight canvas = height)"


text \<open>
  The array \<open>children_canvas\<close> that the first loop fills: for each child what its
  \<open>Draw\<close> returned, and NULL for the popup element.
\<close>

definition children_canvas :: "DrawMethods \<Rightarrow> ptr list \<Rightarrow> Heap \<Rightarrow> canvas_ref option list" where
  "children_canvas D children h = fst (Draw_children D children h False False)"

subsection \<open>What the statements about Layout speak of\<close>




subsection \<open>Example collaborators for layout and drawing\<close>

text \<open>
  Modelled from the spec: \<open>GetChildExtentInParent\<close> of math\_utils (not among the
  sources): the largest parent coordinates reached by the four corners of the child,
  placed at its position and rotated about its pin.
\<close>

definition corner_in_parent ::
  "real \<Rightarrow> real \<Rightarrow> real \<Rightarrow> real \<Rightarrow> real \<Rightarrow> real \<Rightarrow> real \<Rightarrow> real \<times> real" where
  "corner_in_parent x y pin_x pin_y rotation_radians cx cy =
     (x + (cx - pin_x) * cos rotation_radians - (cy - pin_y) * sin rotation_radians,
      y + (cx - pin_x) * sin rotation_radians + (cy - pin_y) * cos rotation_radians)"

definition math_GetChildExtentInParent ::
  "real \<Rightarrow> real \<Rightarrow> real \<Rightarrow> real \<Rightarrow> real \<Rightarrow> real \<Rightarrow> real \<Rightarrow> real \<times> real" where
  "math_GetChildExtentInParent x y pin_x pin_y width height rotation_radians =
     (let corners = map (\<lambda>(cx, cy). corner_in_parent x y pin_x pin_y rotation_radians cx cy)
                        [(0, 0), (width, 0), (0, height), (width, height)]
      in (fold max (map fst corners) (fst (hd corners)),
          fold max (map snd corners) (snd (hd corners))))"

text \<open>
  An element of the examples draws itself on the canvas numbered by its address, reports
  a change exactly when its size-changed flag is up, and lowers that flag; its layout
  does nothing. The view is 200 by 200, has no popup element unless one is given, and
  debugging is off; the graphics object always creates the canvas asked for.
\<close>

definition plain_Draw :: "ptr \<Rightarrow> Heap \<Rightarrow> (canvas_ref option \<times> bool) \<times> Heap" where
  "plain_Draw e h =
     ((Some e, IsSizeChanged (elements h e)),
      h\<lparr>elements := (elements h)(e := (elements h e)\<lparr>IsSizeChanged := False\<rparr>)\<rparr>)"

definition plain :: "ptr option \<Rightarrow> DrawMethods" where
  "plain popup =
     \<lparr>BasicElement_Layout = (\<lambda>e h. h),
      BasicElement_Draw = plain_Draw,
      GetChildExtentInParent = math_GetChildExtentInParent,
      NewCanvas = (\<lambda>width height. Some \<lparr>GetWidth = width, GetHeight = height\<rparr>),
      view_GetWidth = 200,
      view_GetHeight = 200,
      GetPopupElement = popup,
      GetDebugMode = 0\<rparr>"

text \<open>
  Two more collections: the two visible rectangles of the scene as the children of an
  element of no extent (element 5), and the lower rectangle alone in the root collection.
\<close>

definition collapsed :: World where
  "collapsed =
     \<lparr>impl = (Impl_ctor (Some 5))\<lparr>m_children := [1, 2]\<rparr>,
      heap = \<lparr>elements = (elements (heap scene))(5 := rect ''div'' 0 0 0 0),
              alive = (\<lambda>p. p \<in> {1, 2, 5})\<rparr>\<rparr>"

definition single :: World where
  "single =
     \<lparr>impl = (Impl_ctor None)\<lparr>m_children := [1]\<rparr>,
      heap = \<lparr>elements = elements (heap scene), alive = (\<lambda>p. p = 1)\<rparr>\<rparr>"

definition pair :: World where
  "pair =
     \<lparr>impl = (Impl_ctor None)\<lparr>m_children := [1, 2]\<rparr>,
      heap = \<lparr>elements = elements (heap scene), alive = (\<lambda>p. p \<in> {1, 2})\<rparr>\<rparr>"

text \<open>
  The pair and the single rectangle after \<open>Layout\<close> in the view of 200 by 200, and after
  a first \<open>Draw\<close>: of the pair with no popup element, of the single rectangle when it is
  the popup element itself.
\<close>

definition settled :: "BasicElement \<Rightarrow> BasicElement" where
  "settled e = e\<lparr>IsPositionChanged := False, IsSizeChanged := False\<rparr>"

definition pair_sized :: World where
  "pair_sized = pair\<lparr>impl := (impl pair)\<lparr>m_width := 200, m_height := 200\<rparr>\<rparr>"

definition pair_drawn :: World where
  "pair_drawn =
     \<lparr>impl = (impl pair_sized)\<lparr>m_canvas := Some \<lparr>GetWidth = 200, GetHeight = 200\<rparr>,
                                m_count_changed := False\<rparr>,
      heap = (heap pair)\<lparr>elements := (elements (heap pair))
                (1 := settled (rect '''' 0 0 100 100), 2 := settled (rect ''top'' 50 50 100 100))\<rparr>\<rparr>"

definition single_sized :: World where
  "single_sized = single\<lparr>impl := (impl single)\<lparr>m_width := 200, m_height := 200\<rparr>\<rparr>"

definition single_drawn :: World where
  "single_drawn =
     single_sized\<lparr>impl := (impl single_sized)\<lparr>m_canvas := Some \<lparr>GetWidth = 200, GetHeight = 200\<rparr>,
                                               m_count_changed := False, m_has_popup := True\<rparr>\<rparr>"

text \<open>A setter of the position, as the element's own: it raises the position-changed flag.\<close>

definition SetPixelX :: "ptr \<Rightarrow> real \<Rightarrow> World \<Rightarrow> World" where
  "SetPixelX e x w =
     w\<lparr>heap := (heap w)\<lparr>elements := (elements (heap w))
          (e := (elements (heap w) e)\<lparr>GetPixelX := x, IsPositionChanged := True\<rparr>)\<rparr>\<rparr>"



section \<open>The image element (img\_element.cc)\<close>

text \<open>
  \<open>ImgElement\<close> is a \<open>BasicElement\<close> with the members of \<open>ImgElement::Impl\<close>; a member
  \<open>x_\<close> is the field \<open>img_x\<close>. An image (\<open>ImageInterface\<close>, not among the sources) has a
  width, a height and \<open>GetPointValue\<close>, which gives the opacity at a point or fails (the
  colour is not asked for).
\<close>

datatype CropMaintainAspect = CROP_FALSE | CROP_TRUE | CROP_PHOTO

record ImageInterface =
  image_GetWidth :: nat
  image_GetHeight :: nat
  GetPointValue :: "real \<Rightarrow> real \<Rightarrow> real option"

record ImgElement = BasicElement +
  img_image :: "ImageInterface option"
  img_src_width :: nat
  img_src_height :: nat
  img_crop :: CropMaintainAspect
  img_stretch_middle :: bool





subsection \<open>Example images\<close>






section \<open>Theorems\<close>

section \<open>Name lookup\<close>

subsection \<open>The comparison functions\<close>

lemma uchar_eq_iff: "uchar c = uchar d \<longleftrightarrow> c = d"
  by (simp add: uchar_def)

lemma uchar_zero_iff: "uchar c = 0 \<longleftrightarrow> c = CHR 0x00"
  using of_char_eq_iff[of c "CHR 0x00", where ?'a=int] by (simp add: uchar_def)

lemma tolower_zero_iff: "tolower n = 0 \<longleftrightarrow> n = 0"
  by (simp add: tolower_def)

lemma c_str_no_NUL: "CHR 0x00 \<notin> set (c_str s)"
  by (auto simp: c_str_def dest: set_takeWhileD)

lemma c_str_idem: "c_str (c_str s) = c_str s"
  by (simp add: c_str_def)

lemma strcmp_bytes_zero:
  "CHR 0x00 \<notin> set a \<Longrightarrow> CHR 0x00 \<notin> set b \<Longrightarrow> strcmp_bytes a b = 0 \<longleftrightarrow> a = b"
  by (induction a b rule: strcmp_bytes.induct) (auto simp: uchar_eq_iff uchar_zero_iff)

lemma strcasecmp_bytes_zero:
  "CHR 0x00 \<notin> set a \<Longrightarrow> CHR 0x00 \<notin> set b \<Longrightarrow>
   strcasecmp_bytes a b = 0 \<longleftrightarrow> map (tolower \<circ> uchar) a = map (tolower \<circ> uchar) b"
  by (induction a b rule: strcasecmp_bytes.induct) (auto simp: tolower_zero_iff uchar_zero_iff)

lemma GadgetStrCmp_zero: "GadgetStrCmp cs a b = 0 \<longleftrightarrow> same_name cs a b"
  by (simp add: GadgetStrCmp_def same_name_def strcmp_def strcasecmp_def
      strcmp_bytes_zero strcasecmp_bytes_zero c_str_no_NUL)

lemma same_name_c_str: "same_name cs (c_str a) b = same_name cs a b"
  by (simp add: same_name_def c_str_idem)

lemma static_cast_int_small: "n < 2 ^ 31 \<Longrightarrow> static_cast_int n = int n"
  by (simp add: static_cast_int_def)

lemma GetIndexByName_loop_find:
  "i + length es < 2 ^ 31 \<Longrightarrow>
   GetIndexByName_loop cs h n es i =
     (case find (\<lambda>e. same_name cs (GetName (elements h e)) n) es of
        None \<Rightarrow> -1
      | Some e \<Rightarrow> int i + int (length (takeWhile (\<lambda>e. \<not> same_name cs (GetName (elements h e)) n) es)))"
proof (induction es arbitrary: i)
  case Nil then show ?case by simp
next
  case (Cons e es)
  then show ?case
    by (auto simp: GadgetStrCmp_zero same_name_c_str static_cast_int_small split: option.splits)
qed

lemma find_nth_takeWhile:
  "find P xs = Some x \<Longrightarrow>
   xs ! length (takeWhile (\<lambda>e. \<not> P e) xs) = x \<and> length (takeWhile (\<lambda>e. \<not> P e) xs) < length xs"
  by (induction xs) (auto split: if_splits)

lemma GetItemByName_find:
  assumes "length (m_children (impl w)) < 2 ^ 31" "strlen n \<noteq> 0"
  shows "GetItemByName cs w (Some n) =
         find (\<lambda>e. same_name cs (GetName (elements (heap w) e)) n) (m_children (impl w))"
proof (cases "find (\<lambda>e. same_name cs (GetName (elements (heap w) e)) n) (m_children (impl w))")
  case None
  then show ?thesis using assms
    by (simp add: GetItemByName_def GetIndexByName_def GetIndexByName_loop_find GetItemByIndex_def)
next
  case (Some e)
  then show ?thesis using assms find_nth_takeWhile[OF Some]
    by (simp add: GetItemByName_def GetIndexByName_def GetIndexByName_loop_find GetItemByIndex_def
        static_cast_int_small)
qed


text \<open>
  Claim C4. For a non-empty lookup name, \<open>GetItemByName\<close> returns the first child, in the
  order of the vector, whose name compares equal to the lookup name under \<open>GadgetStrCmp\<close>,
  and NULL when no child's name does (so also for the empty collection). Under the default
  configuration the comparison is equality of the lower-cased bytes; with
  \<open>GADGET_CASE_SENSITIVE\<close> it is equality of the bytes. The child count is one that the
  \<open>int\<close> index can hold.
\<close>

theorem GetItemByName_first_match:
  assumes "length (m_children (impl w)) < 2 ^ 31" and "strlen name \<noteq> 0"
  shows "GetItemByName cs w (Some name) =
           find (\<lambda>e. GadgetStrCmp cs (GetName (elements (heap w) e)) name = 0) (m_children (impl w))
         \<and> (\<forall>s1 s2. (GadgetStrCmp False s1 s2 = 0) =
                    (map (tolower \<circ> uchar) (c_str s1) = map (tolower \<circ> uchar) (c_str s2)))
         \<and> (\<forall>s1 s2. (GadgetStrCmp True s1 s2 = 0) = (c_str s1 = c_str s2))"
  using GetItemByName_find[OF assms] by (simp add: GadgetStrCmp_zero) (simp add: same_name_def)

theorem GetItemByName_first_match_witness:
  "length (m_children (impl named_world)) < 2 ^ 31 \<and> strlen ''Bar'' \<noteq> 0
   \<and> GetItemByName False named_world (Some ''Bar'') = Some 11
   \<and> GetItemByName True named_world (Some ''Bar'') = None
   \<and> GetItemByName False named_world (Some ''baz'') = None"
  using GetItemByName_first_match[of named_world "''Bar''" False]
        GetItemByName_first_match[of named_world "''Bar''" True]
        GetItemByName_first_match[of named_world "''baz''" False]
  by (simp add: named_world_def Impl_ctor_def new_element_def strlen_def c_str_def
      GadgetStrCmp_def strcmp_def strcasecmp_def uchar_def tolower_def)


text \<open>
  Claim C10. Called with NULL or with the empty string, \<open>GetIndexByName\<close> returns -1 and
  \<open>GetItemByName\<close> returns NULL, whatever the children's names are; and a child that a
  lookup returns never has the empty name.
\<close>

theorem GetItemByName_null_or_empty:
  assumes "length (m_children (impl w)) < 2 ^ 31"
  shows "(name = None \<or> name = Some [] \<longrightarrow>
            GetIndexByName cs w name = -1 \<and> GetItemByName cs w name = None)
         \<and> (GetItemByName cs w name = Some e \<longrightarrow> c_str (GetName (elements (heap w) e)) \<noteq> [])"
proof (intro conjI impI)
  assume "name = None \<or> name = Some []"
  then show "GetIndexByName cs w name = -1"
    by (auto simp: GetIndexByName_def strlen_def c_str_def)
  then show "GetItemByName cs w name = None"
    by (simp add: GetItemByName_def GetItemByIndex_def)
next
  assume found: "GetItemByName cs w name = Some e"
  show "c_str (GetName (elements (heap w) e)) \<noteq> []"
  proof (cases name)
    case None
    with found show ?thesis
      by (simp add: GetItemByName_def GetIndexByName_def GetItemByIndex_def)
  next
    case (Some n)
    show ?thesis
    proof (cases "strlen n = 0")
      case True
      with found Some show ?thesis
        by (simp add: GetItemByName_def GetIndexByName_def GetItemByIndex_def)
    next
      case False
      with found Some assms
      have "find (\<lambda>e. same_name cs (GetName (elements (heap w) e)) n) (m_children (impl w)) = Some e"
        by (simp add: GetItemByName_find)
      then have "same_name cs (GetName (elements (heap w) e)) n"
        by (auto simp: find_Some_iff)
      with False show ?thesis
        by (auto simp: same_name_def strlen_def split: if_splits)
    qed
  qed
qed

theorem GetItemByName_null_or_empty_witness:
  "length (m_children (impl unnamed_world)) < 2 ^ 31
   \<and> GetIndexByName False unnamed_world None = -1 \<and> GetItemByName False unnamed_world None = None
   \<and> GetIndexByName False unnamed_world (Some []) = -1
   \<and> GetItemByName False unnamed_world (Some []) = None
   \<and> GetItemByName False unnamed_world (Some ''BAR'') = Some 11
   \<and> c_str (GetName (elements (heap unnamed_world) 11)) \<noteq> []"
  using GetItemByName_null_or_empty[of unnamed_world None False 11]
        GetItemByName_null_or_empty[of unnamed_world "Some []" False 11]
        GetItemByName_null_or_empty[of unnamed_world "Some ''BAR''" False 11]
  by (simp add: unnamed_world_def Impl_ctor_def new_element_def strlen_def c_str_def
      GetItemByName_def GetIndexByName_def GetItemByIndex_def static_cast_int_def
      GadgetStrCmp_def strcmp_def strcasecmp_def uchar_def tolower_def)

section \<open>Adding children\<close>

lemma std_find_le: "std_find xs v \<le> length xs"
  by (induction xs) auto

lemma std_find_takeWhile: "std_find xs v = length (takeWhile (\<lambda>x. Some x \<noteq> v) xs)"
  by (induction xs) auto

lemma std_find_end_iff: "std_find xs v = length xs \<longleftrightarrow> v \<notin> Some ` set xs"
  by (induction xs) auto

lemma std_find_nth: "v \<in> Some ` set xs \<Longrightarrow> Some (xs ! std_find xs v) = v"
  by (induction xs) auto

lemma std_find_first: "i < std_find xs v \<Longrightarrow> Some (xs ! i) \<noteq> v"
proof (induction xs arbitrary: i)
  case Nil then show ?case by simp
next
  case (Cons x xs) then show ?case by (cases i) (auto split: if_splits)
qed

lemma GetItemByIndex_nth:
  "length xs < 2 ^ 31 \<Longrightarrow>
   GetItemByIndex xs i = (if 0 \<le> i \<and> i < int (length xs) then Some (xs ! nat i) else None)"
  by (simp add: GetItemByIndex_def static_cast_int_small)

lemma nth_vector_insert:
  assumes k: "k \<le> length xs" and i: "i \<le> length xs"
  shows "vector_insert xs k e ! i = (if i < k then xs ! i else if i = k then e else xs ! (i - 1))"
proof -
  consider "i < k" | "i = k" | "k < i" by linarith
  then show ?thesis
  proof cases
    case 1 then show ?thesis using k by (simp add: vector_insert_def nth_append)
  next
    case 2 then show ?thesis using k by (simp add: vector_insert_def nth_append)
  next
    case 3
    then obtain d where d: "i = Suc (k + d)" by (auto simp: less_iff_Suc_add)
    have "vector_insert xs k e ! Suc (k + d) = xs ! (k + d)"
      using k i d by (simp add: vector_insert_def nth_append)
    then show ?thesis unfolding d by simp
  qed
qed

lemma length_vector_insert: "k \<le> length xs \<Longrightarrow> length (vector_insert xs k e) = Suc (length xs)"
  by (simp add: vector_insert_def)

lemma GetItemByIndex_vector_insert:
  assumes "k \<le> length xs" "length xs + 1 < 2 ^ 31"
  shows "GetItemByIndex (vector_insert xs k e) i =
         (if i < int k then GetItemByIndex xs i else if i = int k then Some e
          else GetItemByIndex xs (i - 1))"
proof -
  have "length (vector_insert xs k e) < 2 ^ 31"
    using assms by (simp add: length_vector_insert)
  then have G1: "GetItemByIndex (vector_insert xs k e) i =
      (if 0 \<le> i \<and> i < int (length xs) + 1 then Some (vector_insert xs k e ! nat i) else None)"
    using assms(1) by (simp add: GetItemByIndex_nth length_vector_insert)
  have "length xs < 2 ^ 31" using assms by simp
  then have G2: "\<And>j. GetItemByIndex xs j =
      (if 0 \<le> j \<and> j < int (length xs) then Some (xs ! nat j) else None)"
    by (simp add: GetItemByIndex_nth)
  show ?thesis
  proof (cases "0 \<le> i \<and> i \<le> int (length xs)")
    case True
    then have n: "nat i \<le> length xs" by (simp add: nat_le_iff)
    have eq: "vector_insert xs k e ! nat i =
       (if nat i < k then xs ! nat i else if nat i = k then e else xs ! (nat i - 1))"
      by (rule nth_vector_insert[OF assms(1) n])
    consider "i < int k" | "i = int k" | "int k < i" by linarith
    then show ?thesis
    proof cases
      case 1
      then have "nat i < k" "i < int (length xs)" using True assms(1) by linarith+
      with 1 True show ?thesis by (simp add: G1 G2 eq)
    next
      case 2
      then have "nat i = k" by simp
      with 2 True show ?thesis unfolding G1 eq by simp
    next
      case 3
      then have "\<not> nat i < k" "nat i \<noteq> k" "\<not> i < int k" "i \<noteq> int k"
        "0 \<le> i - 1" "i - 1 < int (length xs)" using True by linarith+
      moreover have "nat (i - 1) = nat i - 1" using True by linarith
      ultimately show ?thesis using True by (simp add: G1 G2 eq)
    qed
  next
    case False
    then consider "i < 0" | "int (length xs) < i" by linarith
    then show ?thesis
    proof cases
      case 1
      then have "i < int k" by linarith
      with 1 show ?thesis by (simp add: G1 G2)
    next
      case 2
      then have "\<not> i < int k" "i \<noteq> int k" "\<not> i - 1 < int (length xs)" "\<not> i < int (length xs) + 1"
        using assms(1) by linarith+
      then show ?thesis by (simp add: G1 G2)
    qed
  qed
qed

lemma AppendElement_Some:
  assumes "AppendElement CE OA tag name w = (Some e, w')"
  shows "m_children (impl w') = m_children (impl w) @ [e]"
proof (cases "CE tag (m_owner (impl w)) name (heap w)")
  case (Pair r h)
  show ?thesis
  proof (cases r)
    case None
    with Pair assms show ?thesis by (simp add: AppendElement_def)
  next
    case (Some x)
    with Pair assms show ?thesis
      by (cases "OA h x") (auto simp: AppendElement_def)
  qed
qed

lemma InsertElement_Some:
  assumes "InsertElement CE OA tag before name w = (Some e, w')"
  shows "m_children (impl w') =
         vector_insert (m_children (impl w)) (std_find (m_children (impl w)) before) e"
proof (cases "CE tag (m_owner (impl w)) name (heap w)")
  case (Pair r h)
  show ?thesis
  proof (cases r)
    case None
    with Pair assms show ?thesis by (simp add: InsertElement_def)
  next
    case (Some x)
    with Pair assms show ?thesis
      by (cases "OA h x") (auto simp: InsertElement_def Let_def)
  qed
qed


text \<open>
  Claim C3. After a successful \<open>AppendElement\<close> the new element is the item at the old
  count and every other index gives what it gave before. After a successful
  \<open>InsertElement\<close> there is a position \<open>k\<close> such that the new element is item \<open>k\<close>,
  the items below \<open>k\<close> are unchanged and the items from \<open>k\<close> on have moved up by one;
  when \<open>before\<close> is a child, \<open>k\<close> is the first index holding it, so that \<open>before\<close> is
  item \<open>k + 1\<close> afterwards; when \<open>before\<close> is NULL or not a child, \<open>k\<close> is the old count.
\<close>

theorem GetItemByIndex_after_add:
  assumes "length (m_children (impl w)) + 1 < 2 ^ 31"
  shows "(AppendElement CreateElement OnElementAdd tag name w = (Some e1, w1) \<longrightarrow>
            (\<forall>i. GetItemByIndex (m_children (impl w1)) i =
                   (if i = int (length (m_children (impl w))) then Some e1
                    else GetItemByIndex (m_children (impl w)) i)))
       \<and> (InsertElement CreateElement OnElementAdd tag before name w = (Some e2, w2) \<longrightarrow>
            (\<exists>k \<le> length (m_children (impl w)).
               (\<forall>i. GetItemByIndex (m_children (impl w2)) i =
                      (if i < int k then GetItemByIndex (m_children (impl w)) i
                       else if i = int k then Some e2
                       else GetItemByIndex (m_children (impl w)) (i - 1)))
             \<and> (if before \<in> Some ` set (m_children (impl w))
                  then GetItemByIndex (m_children (impl w2)) (int k + 1) = before
                     \<and> (\<forall>j<k. GetItemByIndex (m_children (impl w)) (int j) \<noteq> before)
                  else k = length (m_children (impl w)))))"
proof (intro conjI impI)
  assume a: "AppendElement CreateElement OnElementAdd tag name w = (Some e1, w1)"
  have v: "m_children (impl w) @ [e1] = vector_insert (m_children (impl w)) (length (m_children (impl w))) e1"
    by (simp add: vector_insert_def)
  show "\<forall>i. GetItemByIndex (m_children (impl w1)) i =
             (if i = int (length (m_children (impl w))) then Some e1
              else GetItemByIndex (m_children (impl w)) i)"
  proof
    fix i
    have "length (m_children (impl w)) < 2 ^ 31" using assms by simp
    then have o: "GetItemByIndex (m_children (impl w)) (int (length (m_children (impl w))) - 1 + 1) = None"
      "\<And>j. int (length (m_children (impl w))) < j \<Longrightarrow> GetItemByIndex (m_children (impl w)) j = None"
      by (simp_all add: GetItemByIndex_nth)
    have "int (length (m_children (impl w))) < i \<Longrightarrow>
          GetItemByIndex (m_children (impl w)) (i - 1) = GetItemByIndex (m_children (impl w)) i"
      using \<open>length (m_children (impl w)) < 2 ^ 31\<close> by (simp add: GetItemByIndex_nth)
    then show "GetItemByIndex (m_children (impl w1)) i =
             (if i = int (length (m_children (impl w))) then Some e1
              else GetItemByIndex (m_children (impl w)) i)"
      unfolding AppendElement_Some[OF a] v
      using GetItemByIndex_vector_insert[OF le_refl assms, of e1 i] by auto
  qed
next
  let ?cs = "m_children (impl w)"
  let ?k = "std_find ?cs before"
  assume a: "InsertElement CreateElement OnElementAdd tag before name w = (Some e2, w2)"
  have k: "?k \<le> length ?cs" by (rule std_find_le)
  have 1: "\<forall>i. GetItemByIndex (m_children (impl w2)) i =
                      (if i < int ?k then GetItemByIndex ?cs i
                       else if i = int ?k then Some e2
                       else GetItemByIndex ?cs (i - 1))"
    unfolding InsertElement_Some[OF a] using GetItemByIndex_vector_insert[OF k assms] by blast
  have 2: "if before \<in> Some ` set ?cs
           then GetItemByIndex (m_children (impl w2)) (int ?k + 1) = before
                     \<and> (\<forall>j< ?k. GetItemByIndex ?cs (int j) \<noteq> before)
           else ?k = length ?cs"
  proof (cases "before \<in> Some ` set ?cs")
    case True
    then have lt: "?k < length ?cs" using std_find_end_iff[of ?cs before] k by simp
    have "GetItemByIndex (m_children (impl w2)) (int ?k + 1) = GetItemByIndex ?cs (int ?k)"
      using 1 by simp
    also have "\<dots> = before"
      using lt assms std_find_nth[OF True] by (simp add: GetItemByIndex_nth)
    finally have A: "GetItemByIndex (m_children (impl w2)) (int ?k + 1) = before" .
    have B: "\<forall>j< ?k. GetItemByIndex ?cs (int j) \<noteq> before"
      using lt assms std_find_first[of _ ?cs before] by (auto simp: GetItemByIndex_nth)
    from True A B show ?thesis by simp
  next
    case False
    then show ?thesis using std_find_end_iff[of ?cs before] by simp
  qed
  from k 1 2 show "\<exists>k \<le> length ?cs.
               (\<forall>i. GetItemByIndex (m_children (impl w2)) i =
                      (if i < int k then GetItemByIndex ?cs i
                       else if i = int k then Some e2
                       else GetItemByIndex ?cs (i - 1)))
             \<and> (if before \<in> Some ` set ?cs
                  then GetItemByIndex (m_children (impl w2)) (int k + 1) = before
                     \<and> (\<forall>j<k. GetItemByIndex ?cs (int j) \<noteq> before)
                  else k = length ?cs)"
    by blast
qed

theorem GetItemByIndex_after_add_witness:
  "length (m_children (impl named_world)) + 1 < 2 ^ 31
   \<and> fst (AppendElement (muffin_pie_factory 20) (\<lambda>h e. True) ''muffin'' None named_world) = Some 20
   \<and> map (GetItemByIndex (m_children (impl (snd
          (AppendElement (muffin_pie_factory 20) (\<lambda>h e. True) ''muffin'' None named_world)))))
        [0, 1, 2, 3, 4] = [Some 10, Some 11, Some 12, Some 20, None]
   \<and> fst (InsertElement (muffin_pie_factory 20) (\<lambda>h e. True) ''muffin'' (Some 11) None named_world) = Some 20
   \<and> map (GetItemByIndex (m_children (impl (snd
          (InsertElement (muffin_pie_factory 20) (\<lambda>h e. True) ''muffin'' (Some 11) None named_world)))))
        [0, 1, 2, 3, 4] = [Some 10, Some 20, Some 11, Some 12, None]
   \<and> map (GetItemByIndex (m_children (impl (snd
          (InsertElement (muffin_pie_factory 20) (\<lambda>h e. True) ''muffin'' (Some 99) None named_world)))))
        [0, 1, 2, 3, 4] = [Some 10, Some 11, Some 12, Some 20, None]"
  using GetItemByIndex_after_add[of named_world "muffin_pie_factory 20" "\<lambda>h e. True" "''muffin''" None 20
          "snd (AppendElement (muffin_pie_factory 20) (\<lambda>h e. True) ''muffin'' None named_world)"
          "Some 11" 20
          "snd (InsertElement (muffin_pie_factory 20) (\<lambda>h e. True) ''muffin'' (Some 11) None named_world)"]
  by (simp add: named_world_def Impl_ctor_def muffin_pie_factory_def ElementFactory_CreateElement_def
      AppendElement_def InsertElement_def vector_insert_def GetItemByIndex_def static_cast_int_def)


text \<open>
  Claim C5. \<open>AppendElement\<close> and \<open>InsertElement\<close> return NULL exactly when
  \<open>CreateElement\<close> returns NULL or the view's \<open>OnElementAdd\<close> hook refuses the new
  element; a call that returns NULL leaves the vector of children as it was; and an element
  that the hook refused has been deleted when the call returns.
\<close>

theorem add_returns_null_iff:
  fixes CreateElement :: factory and OnElementAdd :: "Heap \<Rightarrow> ptr \<Rightarrow> bool"
    and tag_name :: string and name :: "string option" and before :: "ptr option" and w :: World
  defines "created \<equiv> CreateElement tag_name (m_owner (impl w)) name (heap w)"
  defines "appended \<equiv> AppendElement CreateElement OnElementAdd tag_name name w"
  defines "inserted \<equiv> InsertElement CreateElement OnElementAdd tag_name before name w"
  shows "(fst appended = None \<longleftrightarrow> fst created = None \<or> \<not> OnElementAdd (snd created) (the (fst created)))
       \<and> (fst inserted = None \<longleftrightarrow> fst created = None \<or> \<not> OnElementAdd (snd created) (the (fst created)))
       \<and> (fst appended = None \<longrightarrow> m_children (impl (snd appended)) = m_children (impl w))
       \<and> (fst inserted = None \<longrightarrow> m_children (impl (snd inserted)) = m_children (impl w))
       \<and> (\<forall>e. fst created = Some e \<and> \<not> OnElementAdd (snd created) e \<longrightarrow>
              \<not> alive (heap (snd appended)) e \<and> \<not> alive (heap (snd inserted)) e)"
proof (cases created)
  case (Pair r h)
  show ?thesis
  proof (cases r)
    case None
    with Pair show ?thesis
      unfolding appended_def inserted_def AppendElement_def InsertElement_def
      by (simp add: created_def[symmetric])
  next
    case (Some x)
    with Pair show ?thesis
      unfolding appended_def inserted_def AppendElement_def InsertElement_def
      by (cases "OnElementAdd h x") (simp_all add: created_def[symmetric] Let_def delete_def)
  qed
qed

theorem add_returns_null_iff_witness:
  "AppendElement (muffin_pie_factory 20) (\<lambda>h e. True) ''bread'' None named_world = (None, named_world)
   \<and> InsertElement (muffin_pie_factory 20) (\<lambda>h e. True) ''bread'' (Some 11) None named_world
       = (None, named_world)
   \<and> fst (muffin_pie_factory 20 ''pie'' None None (heap named_world)) = Some 20
   \<and> fst (AppendElement (muffin_pie_factory 20) (\<lambda>h e. False) ''pie'' None named_world) = None
   \<and> fst (InsertElement (muffin_pie_factory 20) (\<lambda>h e. False) ''pie'' (Some 11) None named_world) = None
   \<and> m_children (impl (snd (AppendElement (muffin_pie_factory 20) (\<lambda>h e. False) ''pie'' None named_world)))
       = [10, 11, 12]
   \<and> m_children (impl (snd (InsertElement (muffin_pie_factory 20) (\<lambda>h e. False) ''pie'' (Some 11) None
         named_world))) = [10, 11, 12]
   \<and> \<not> alive (heap (snd (AppendElement (muffin_pie_factory 20) (\<lambda>h e. False) ''pie'' None named_world))) 20
   \<and> \<not> alive (heap (snd (InsertElement (muffin_pie_factory 20) (\<lambda>h e. False) ''pie'' (Some 11) None
         named_world))) 20"
  using add_returns_null_iff[where CreateElement = "muffin_pie_factory 20" and tag_name = "''bread''"
          and w = named_world and name = None and OnElementAdd = "\<lambda>h e. True" and before = "Some 11"]
        add_returns_null_iff[where CreateElement = "muffin_pie_factory 20" and tag_name = "''pie''"
          and w = named_world and name = None and OnElementAdd = "\<lambda>h e. False" and before = "Some 11"]
  by (simp add: named_world_def Impl_ctor_def muffin_pie_factory_def ElementFactory_CreateElement_def
      AppendElement_def InsertElement_def delete_def)

section \<open>Dispatch of mouse and drag events\<close>

subsection \<open>One turn of the loops, and the children passed over\<close>

lemma OnMouseEvent_loop_passed_over:
  assumes "passed_over M event w (m_children (impl w) ! i)" "i < length (m_children (impl w))"
  shows "OnMouseEvent_loop M event (Suc i) ie w = OnMouseEvent_loop M event i ie w"
  using assms by (auto simp: passed_over_def Let_def)

lemma OnMouseEvent_loop_skip:
  assumes "n \<le> length (m_children (impl w))"
    and "\<forall>j. i \<le> j \<and> j < n \<longrightarrow> passed_over M event w (m_children (impl w) ! j)"
    and "i \<le> n"
  shows "OnMouseEvent_loop M event n ie w = OnMouseEvent_loop M event i ie w"
  using assms
proof (induction n)
  case 0
  then show ?case by simp
next
  case (Suc n)
  show ?case
  proof (cases "i = Suc n")
    case True
    then show ?thesis by simp
  next
    case False
    with Suc.prems have le: "i \<le> n" by simp
    have p: "passed_over M event w (m_children (impl w) ! n)" using Suc.prems le by simp
    have "OnMouseEvent_loop M event (Suc n) ie w = OnMouseEvent_loop M event n ie w"
      using OnMouseEvent_loop_passed_over[OF p] Suc.prems by simp
    also have "\<dots> = OnMouseEvent_loop M event i ie w"
      using Suc.IH Suc.prems le by simp
    finally show ?thesis .
  qed
qed

lemma OnMouseEvent_loop_call:
  assumes "i < length (m_children (impl w))" and "c = m_children (impl w) ! i"
    and "candidate M event w c"
    and "BasicElement_OnMouseEvent M c (MapChildPositionEvent M event c w) w = ((result, fired, d), w')"
  shows "OnMouseEvent_loop M event (Suc i) ie w =
         (if \<not> alive (heap w') c then Inr ((result, fired, ie), w')
          else let ie' = (if ie = None
                          then (if ScopedDeathDetector w' d \<noteq> None then ScopedDeathDetector w' d
                                else Some c)
                          else ie)
               in if fired \<noteq> None then Inr ((result, fired, ie'), w')
                  else if m_children (impl w') \<noteq> m_children (impl w) then Inl InvalidIterator
                  else OnMouseEvent_loop M event i ie' w')"
  using assms by (simp add: candidate_def Let_def ScopedDeathDetector_def)

lemma OnDragEvent_loop_passed_over:
  assumes "passed_over M event w (m_children (impl w) ! i)" "i < length (m_children (impl w))"
  shows "OnDragEvent_loop M event (Suc i) w = OnDragEvent_loop M event i w"
  using assms by (auto simp: passed_over_def Let_def)

lemma OnDragEvent_loop_skip:
  assumes "n \<le> length (m_children (impl w))"
    and "\<forall>j. i \<le> j \<and> j < n \<longrightarrow> passed_over M event w (m_children (impl w) ! j)"
    and "i \<le> n"
  shows "OnDragEvent_loop M event n w = OnDragEvent_loop M event i w"
  using assms
proof (induction n)
  case 0
  then show ?case by simp
next
  case (Suc n)
  show ?case
  proof (cases "i = Suc n")
    case True
    then show ?thesis by simp
  next
    case False
    with Suc.prems have le: "i \<le> n" by simp
    have p: "passed_over M event w (m_children (impl w) ! n)" using Suc.prems le by simp
    have "OnDragEvent_loop M event (Suc n) w = OnDragEvent_loop M event n w"
      using OnDragEvent_loop_passed_over[OF p] Suc.prems by simp
    also have "\<dots> = OnDragEvent_loop M event i w"
      using Suc.IH Suc.prems le by simp
    finally show ?thesis .
  qed
qed

lemma OnDragEvent_loop_call:
  assumes "i < length (m_children (impl w))" and "c = m_children (impl w) ! i"
    and "candidate M event w c"
    and "BasicElement_OnDragEvent M c (MapChildPositionEvent M event c w) w = ((result, fired), w')"
  shows "OnDragEvent_loop M event (Suc i) w =
         (if \<not> alive (heap w') c \<or> fired \<noteq> None then Inr ((result, fired), w')
          else if m_children (impl w') \<noteq> m_children (impl w) then Inl InvalidIterator
          else OnDragEvent_loop M event i w')"
  using assms by (simp add: candidate_def Let_def ScopedDeathDetector_def)


lemma take_decomposition:
  assumes "take n cs = lower @ c # upper" "n \<le> length cs"
  shows "n = Suc (length lower + length upper)" "length lower < length cs"
    "cs ! length lower = c"
    "\<forall>j. length lower < j \<and> j < n \<longrightarrow> cs ! j \<in> set upper"
proof -
  have "length (take n cs) = length (lower @ c # upper)" using assms(1) by simp
  then show n: "n = Suc (length lower + length upper)" using assms(2) by simp
  then show "length lower < length cs" using assms(2) by simp
  have nth: "\<And>j. j < n \<Longrightarrow> cs ! j = (lower @ c # upper) ! j"
    using assms(1) by (metis nth_take)
  show "cs ! length lower = c" using nth[of "length lower"] n by simp
  show "\<forall>j. length lower < j \<and> j < n \<longrightarrow> cs ! j \<in> set upper"
  proof (intro allI impI)
    fix j assume j: "length lower < j \<and> j < n"
    then obtain k where k: "j = Suc (length lower + k)" by (auto simp: less_iff_Suc_add)
    with j n have "k < length upper" by simp
    moreover have "cs ! j = upper ! k" using nth[of j] j k by (simp add: nth_append)
    ultimately show "cs ! j \<in> set upper" by simp
  qed
qed

lemma OnMouseEvent_loop_topmost:
  assumes n: "n \<le> length (m_children (impl w))"
    and dec: "take n (m_children (impl w)) = lower @ c # upper"
    and up: "list_all (passed_over M event w) upper"
    and cand: "candidate M event w c"
    and h: "BasicElement_OnMouseEvent M c (MapChildPositionEvent M event c w) w = ((result, fired, d), w')"
  shows "OnMouseEvent_loop M event n ie w =
         (if \<not> alive (heap w') c then Inr ((result, fired, ie), w')
          else let ie' = (if ie = None
                          then (if ScopedDeathDetector w' d \<noteq> None then ScopedDeathDetector w' d
                                else Some c)
                          else ie)
               in if fired \<noteq> None then Inr ((result, fired, ie'), w')
                  else if m_children (impl w') \<noteq> m_children (impl w) then Inl InvalidIterator
                  else OnMouseEvent_loop M event (length lower) ie' w')"
proof -
  note d = take_decomposition[OF dec n]
  have "\<forall>j. Suc (length lower) \<le> j \<and> j < n \<longrightarrow> passed_over M event w (m_children (impl w) ! j)"
    using d(4) up by (auto simp: list_all_iff)
  then have "OnMouseEvent_loop M event n ie w = OnMouseEvent_loop M event (Suc (length lower)) ie w"
    using OnMouseEvent_loop_skip[OF n, of "Suc (length lower)" M event ie] d(1) by simp
  also have "\<dots> = (if \<not> alive (heap w') c then Inr ((result, fired, ie), w')
          else let ie' = (if ie = None
                          then (if ScopedDeathDetector w' d \<noteq> None then ScopedDeathDetector w' d
                                else Some c)
                          else ie)
               in if fired \<noteq> None then Inr ((result, fired, ie'), w')
                  else if m_children (impl w') \<noteq> m_children (impl w) then Inl InvalidIterator
                  else OnMouseEvent_loop M event (length lower) ie' w')"
    by (rule OnMouseEvent_loop_call[OF d(2) d(3)[symmetric] cand h])
  finally show ?thesis .
qed

lemma OnDragEvent_loop_topmost:
  assumes n: "n \<le> length (m_children (impl w))"
    and dec: "take n (m_children (impl w)) = lower @ c # upper"
    and up: "list_all (passed_over M event w) upper"
    and cand: "candidate M event w c"
    and h: "BasicElement_OnDragEvent M c (MapChildPositionEvent M event c w) w = ((result, fired), w')"
  shows "OnDragEvent_loop M event n w =
         (if \<not> alive (heap w') c \<or> fired \<noteq> None then Inr ((result, fired), w')
          else if m_children (impl w') \<noteq> m_children (impl w) then Inl InvalidIterator
          else OnDragEvent_loop M event (length lower) w')"
proof -
  note d = take_decomposition[OF dec n]
  have "\<forall>j. Suc (length lower) \<le> j \<and> j < n \<longrightarrow> passed_over M event w (m_children (impl w) ! j)"
    using d(4) up by (auto simp: list_all_iff)
  then have "OnDragEvent_loop M event n w = OnDragEvent_loop M event (Suc (length lower)) w"
    using OnDragEvent_loop_skip[OF n, of "Suc (length lower)" M event] d(1) by simp
  also have "\<dots> = (if \<not> alive (heap w') c \<or> fired \<noteq> None then Inr ((result, fired), w')
          else if m_children (impl w') \<noteq> m_children (impl w) then Inl InvalidIterator
          else OnDragEvent_loop M event (length lower) w')"
    by (rule OnDragEvent_loop_call[OF d(2) d(3)[symmetric] cand h])
  finally show ?thesis .
qed


subsection \<open>The example scene\<close>

lemmas scene_simps = scene_def Impl_ctor_def rect_def new_element_def c_str_def
  scripted_def scripted_OnMouseEvent_def scripted_OnDragEvent_def mark_fired_def
  BasicElement_IsPointIn_def math_ParentCoordToChildCoord_def DegreesToRadians_def
  MapChildPositionEvent_def candidate_def passed_over_def mouse_down_def drag_motion_def
  RemoveElement_def vector_erase_def delete_def ScopedDeathDetector_def

subsection \<open>A handler that destroys elements\<close>

text \<open>
  Claim C1, as amended. Take the loop of \<open>OnMouseEvent\<close> or of \<open>OnDragEvent\<close> at any
  iterator position \<open>n\<close>, and let \<open>c\<close> be the first child from there down whose handler
  is called (the children above it, \<open>upper\<close>, are passed over). If the handler destroys
  \<open>c\<close>, the loop returns the handler's result at once, with the world and
  \<open>*fired_element\<close> as the handler left them and \<open>*in_element\<close> untouched: no element
  is used after that (the result is not \<open>UseAfterFree\<close>) and no lower sibling is visited.
  This holds for the two functions themselves, which start the loop at the end of the
  vector. If \<open>c\<close> survives and the descendant it reported as in-element does not (or it
  reported none), the mouse loop does not return for that reason: it takes \<open>c\<close> itself as
  in-element and goes on as for any surviving child, returning only if an element fired.
\<close>

theorem handler_destroys_child:
  assumes "n \<le> length (m_children (impl w))"
    and "take n (m_children (impl w)) = lower @ c # upper"
    and "list_all (passed_over M event w) upper"
    and "candidate M event w c"
    and "BasicElement_OnMouseEvent M c (MapChildPositionEvent M event c w) w = ((result, fired, d), w')"
    and "BasicElement_OnDragEvent M c (MapChildPositionEvent M event c w) w = ((dresult, dfired), w'')"
  shows "(\<not> alive (heap w') c \<longrightarrow>
            OnMouseEvent_loop M event n in_element w = Inr ((result, fired, in_element), w'))
       \<and> (\<not> alive (heap w'') c \<longrightarrow>
            OnDragEvent_loop M event n w = Inr ((dresult, dfired), w''))
       \<and> (alive (heap w') c \<and> ScopedDeathDetector w' d = None \<longrightarrow>
            OnMouseEvent_loop M event n None w =
              (if fired \<noteq> None then Inr ((result, fired, Some c), w')
               else if m_children (impl w') \<noteq> m_children (impl w) then Inl InvalidIterator
               else OnMouseEvent_loop M event (length lower) (Some c) w'))
       \<and> (n = length (m_children (impl w)) \<and> \<not> alive (heap w') c
            \<and> GetType event \<noteq> EVENT_MOUSE_OVER \<and> GetType event \<noteq> EVENT_MOUSE_OUT \<longrightarrow>
            OnMouseEvent M event w = Inr ((result, fired, None), w'))
       \<and> (n = length (m_children (impl w)) \<and> \<not> alive (heap w'') c
            \<and> GetType event = EVENT_DRAG_MOTION \<longrightarrow>
            OnDragEvent M event w = Inr ((dresult, dfired), w''))"
proof -
  note m = OnMouseEvent_loop_topmost[OF assms(1-5)]
  note g = OnDragEvent_loop_topmost[OF assms(1-4) assms(6)]
  have 1: "\<not> alive (heap w') c \<longrightarrow>
            OnMouseEvent_loop M event n in_element w = Inr ((result, fired, in_element), w')"
    using m[of in_element] by simp
  have 2: "\<not> alive (heap w'') c \<longrightarrow> OnDragEvent_loop M event n w = Inr ((dresult, dfired), w'')"
    using g by simp
  have 3: "alive (heap w') c \<and> ScopedDeathDetector w' d = None \<longrightarrow>
            OnMouseEvent_loop M event n None w =
              (if fired \<noteq> None then Inr ((result, fired, Some c), w')
               else if m_children (impl w') \<noteq> m_children (impl w) then Inl InvalidIterator
               else OnMouseEvent_loop M event (length lower) (Some c) w')"
    using m[of None] by (simp add: Let_def)
  have 4: "n = length (m_children (impl w)) \<and> \<not> alive (heap w') c
            \<and> GetType event \<noteq> EVENT_MOUSE_OVER \<and> GetType event \<noteq> EVENT_MOUSE_OUT \<longrightarrow>
            OnMouseEvent M event w = Inr ((result, fired, None), w')"
    using m[of None] by (auto simp: OnMouseEvent_def)
  have 5: "n = length (m_children (impl w)) \<and> \<not> alive (heap w'') c
            \<and> GetType event = EVENT_DRAG_MOTION \<longrightarrow>
            OnDragEvent M event w = Inr ((dresult, dfired), w'')"
    using g by (auto simp: OnDragEvent_def)
  from 1 2 3 4 5 show ?thesis by blast
qed

theorem handler_destroys_child_witness:
  "candidate top_removes_itself mouse_down scene 2
   \<and> passed_over top_removes_itself mouse_down scene 4
   \<and> \<not> alive (heap (snd (RemoveElement (Some 2) scene))) 2
   \<and> OnMouseEvent top_removes_itself mouse_down scene
       = Inr ((EVENT_RESULT_CANCELED, None, None), snd (RemoveElement (Some 2) scene))
   \<and> OnDragEvent top_removes_itself drag_motion scene
       = Inr ((EVENT_RESULT_CANCELED, None), snd (RemoveElement (Some 2) scene))
   \<and> OnMouseEvent_loop top_removes_itself mouse_down 3 (Some 4) scene
       = Inr ((EVENT_RESULT_CANCELED, None, Some 4), snd (RemoveElement (Some 2) scene))
   \<and> OnMouseEvent_loop top_destroys_descendant mouse_down 3 None scene
       = OnMouseEvent_loop top_destroys_descendant mouse_down 1 (Some 2)
           (scene\<lparr>heap := delete 3 (heap scene)\<rparr>)"
proof -
  have A: "candidate top_removes_itself mouse_down scene 2"
    "passed_over top_removes_itself mouse_down scene 4"
    "candidate top_removes_itself drag_motion scene 2"
    "passed_over top_removes_itself drag_motion scene 4"
    "candidate top_destroys_descendant mouse_down scene 2"
    "passed_over top_destroys_descendant mouse_down scene 4"
    by (simp_all add: scene_simps top_removes_itself_def top_destroys_descendant_def)
  have B: "3 \<le> length (m_children (impl scene))"
    "take 3 (m_children (impl scene)) = [1] @ 2 # [4]"
    by (simp_all add: scene_def Impl_ctor_def)
  have H:
    "BasicElement_OnMouseEvent top_removes_itself 2
       (MapChildPositionEvent top_removes_itself mouse_down 2 scene) scene
     = ((EVENT_RESULT_CANCELED, None, None), snd (RemoveElement (Some 2) scene))"
    "BasicElement_OnDragEvent top_removes_itself 2
       (MapChildPositionEvent top_removes_itself mouse_down 2 scene) scene
     = ((EVENT_RESULT_CANCELED, None), snd (RemoveElement (Some 2) scene))"
    "BasicElement_OnMouseEvent top_removes_itself 2
       (MapChildPositionEvent top_removes_itself drag_motion 2 scene) scene
     = ((EVENT_RESULT_CANCELED, None, None), snd (RemoveElement (Some 2) scene))"
    "BasicElement_OnDragEvent top_removes_itself 2
       (MapChildPositionEvent top_removes_itself drag_motion 2 scene) scene
     = ((EVENT_RESULT_CANCELED, None), snd (RemoveElement (Some 2) scene))"
    "BasicElement_OnMouseEvent top_destroys_descendant 2
       (MapChildPositionEvent top_destroys_descendant mouse_down 2 scene) scene
     = ((EVENT_RESULT_UNHANDLED, None, Some 3), scene\<lparr>heap := delete 3 (heap scene)\<rparr>)"
    "BasicElement_OnDragEvent top_destroys_descendant 2
       (MapChildPositionEvent top_destroys_descendant mouse_down 2 scene) scene
     = ((EVENT_RESULT_UNHANDLED, None), scene\<lparr>heap := delete 3 (heap scene)\<rparr>)"
    by (simp_all add: top_removes_itself_def top_destroys_descendant_def scripted_def
        scripted_OnMouseEvent_def scripted_OnDragEvent_def)
  have D: "\<not> alive (heap (snd (RemoveElement (Some 2) scene))) 2"
    "alive (heap (scene\<lparr>heap := delete 3 (heap scene)\<rparr>)) 2"
    "ScopedDeathDetector (scene\<lparr>heap := delete 3 (heap scene)\<rparr>) (Some 3) = None"
    "m_children (impl (scene\<lparr>heap := delete 3 (heap scene)\<rparr>)) = m_children (impl scene)"
    "length (m_children (impl scene)) = 3"
    "GetType mouse_down = EVENT_MOUSE_DOWN" "GetType drag_motion = EVENT_DRAG_MOTION"
    by (simp_all add: scene_simps)
  have U: "list_all (passed_over top_removes_itself mouse_down scene) [4]"
    "list_all (passed_over top_removes_itself drag_motion scene) [4]"
    "list_all (passed_over top_destroys_descendant mouse_down scene) [4]"
    using A by simp_all
  note t1 = handler_destroys_child[OF B U(1) A(1) H(1) H(2), of "Some 4"]
  note t2 = handler_destroys_child[OF B U(2) A(3) H(3) H(4), of None]
  note t3 = handler_destroys_child[OF B U(3) A(5) H(5) H(6), of None]
  show ?thesis
    using t1 t2 t3 A(1,2) D by simp
qed

text \<open>
  The claim as stated fails for the descendant: in the scene, the handler of "top"
  reports its descendant 3 as in-element, destroys it, fires nothing and returns
  \<open>EVENT_RESULT_UNHANDLED\<close>. The dispatcher does not return that result: it goes on to
  the rectangle below, whose handler fires, and returns its \<open>EVENT_RESULT_HANDLED\<close>.
\<close>

theorem descendant_destroyed_no_return:
  "candidate top_destroys_descendant mouse_down scene 2
   \<and> alive (heap scene) 3
   \<and> BasicElement_OnMouseEvent top_destroys_descendant 2
         (MapChildPositionEvent top_destroys_descendant mouse_down 2 scene) scene
       = ((EVENT_RESULT_UNHANDLED, None, Some 3), scene\<lparr>heap := delete 3 (heap scene)\<rparr>)
   \<and> \<not> alive (heap (scene\<lparr>heap := delete 3 (heap scene)\<rparr>)) 3
   \<and> OnMouseEvent top_destroys_descendant mouse_down scene
       = Inr ((EVENT_RESULT_HANDLED, Some 1, Some 2),
              mark_fired 1 (scene\<lparr>heap := delete 3 (heap scene)\<rparr>))
   \<and> OnMouseEvent top_destroys_descendant mouse_down scene
       \<noteq> Inr ((EVENT_RESULT_UNHANDLED, None, None), scene\<lparr>heap := delete 3 (heap scene)\<rparr>)"
  by (simp add: OnMouseEvent_def scene_simps top_destroys_descendant_def numeral_3_eq_3 Let_def)

subsection \<open>The topmost child first\<close>




section \<open>Drawing\<close>

subsection \<open>The first loop\<close>

lemma Draw_child_popup:
  assumes "Some c = GetPopupElement D"
  shows "Draw_child D c h ch hp = (None, h, ch \<or> \<not> hp, True)"
  using assms by (simp add: Draw_child_def)

lemma Draw_child_other:
  assumes "Some c \<noteq> GetPopupElement D" and "BasicElement_Draw D c h = ((cv, cc), h')"
  shows "Draw_child D c h ch hp =
         (cv, if IsPositionChanged (elements h' c) then ClearPositionChanged c h' else h',
          ch \<or> cc \<or> IsPositionChanged (elements h' c) \<or> hp, False)"
  using assms by (auto simp: Draw_child_def)

lemma Draw_children_Cons:
  assumes "Draw_child D c h ch hp = (cv, h1, ch1, hp1)"
  shows "Draw_children D (c # cs) h ch hp =
         (cv # fst (Draw_children D cs h1 ch1 hp1), snd (Draw_children D cs h1 ch1 hp1))"
  using assms by (simp split: prod.splits)


lemma Draw_child_has_popup:
  "snd (snd (snd (Draw_child D c h ch hp))) = (Some c = GetPopupElement D)"
proof (cases "Some c = GetPopupElement D")
  case True
  then show ?thesis by (simp add: Draw_child_popup)
next
  case False
  obtain cv cc h' where d: "BasicElement_Draw D c h = ((cv, cc), h')" by (metis prod.exhaust)
  show ?thesis using False by (simp add: Draw_child_other[OF False d])
qed

lemma Draw_children_has_popup:
  "snd (snd (snd (Draw_children D cs h ch hp)))
   = (if cs = [] then hp else (Some (last cs) = GetPopupElement D))"
proof (induction cs arbitrary: h ch hp)
  case Nil
  then show ?case by simp
next
  case (Cons c cs)
  obtain cv h1 ch1 hp1 where s: "Draw_child D c h ch hp = (cv, h1, ch1, hp1)"
    by (metis prod.exhaust)
  have "hp1 = (Some c = GetPopupElement D)" using Draw_child_has_popup[of D c h ch hp] s by simp
  then show ?case unfolding Draw_children_Cons[OF s] using Cons.IH[of h1 ch1 hp1] by simp
qed

lemma Draw_child_changed_mono:
  "ch \<Longrightarrow> fst (snd (snd (Draw_child D c h ch hp)))"
proof (cases "Some c = GetPopupElement D")
  case True
  assume ch then show ?thesis using True by (simp add: Draw_child_popup)
next
  case False
  assume c: ch
  obtain cv cc h' where d: "BasicElement_Draw D c h = ((cv, cc), h')" by (metis prod.exhaust)
  show ?thesis using c by (simp add: Draw_child_other[OF False d])
qed

lemma Draw_children_changed_mono:
  "ch \<Longrightarrow> fst (snd (snd (Draw_children D cs h ch hp)))"
proof (induction cs arbitrary: h ch hp)
  case Nil
  then show ?case by simp
next
  case (Cons c cs)
  obtain cv h1 ch1 hp1 where s: "Draw_child D c h ch hp = (cv, h1, ch1, hp1)"
    by (metis prod.exhaust)
  have "ch1" using Draw_child_changed_mono[OF Cons.prems, of D c h hp] s by simp
  from Cons.IH[OF this] show ?case unfolding Draw_children_Cons[OF s] by simp
qed


lemma Draw_children_idle:
  "children_idle D cs h \<Longrightarrow> GetPopupElement D \<notin> Some ` set cs \<Longrightarrow>
   \<not> fst (snd (snd (Draw_children D cs h False False)))"
proof (induction cs arbitrary: h)
  case Nil
  then show ?case by simp
next
  case (Cons c cs)
  then have np: "Some c \<noteq> GetPopupElement D" by auto
  obtain cv cc h' where d: "BasicElement_Draw D c h = ((cv, cc), h')" by (metis prod.exhaust)
  with Cons.prems np have i: "\<not> cc" "\<not> IsPositionChanged (elements h' c)" "children_idle D cs h'"
    by simp_all
  have "GetPopupElement D \<notin> Some ` set cs" using Cons.prems by auto
  from Cons.IH[OF i(3) this] i show ?case
    unfolding Draw_children_Cons[OF Draw_child_other[OF np d, of False False]] by simp
qed




subsection \<open>The branches of Draw\<close>

lemma Draw_empty:
  assumes "m_children (impl w) = []"
  shows "Draw D w = Inr ((m_count_changed (impl w), None),
                         \<lparr>impl = (impl w)\<lparr>m_count_changed := False\<rparr>, heap = heap w\<rparr>, [])"
  using assms by (simp add: Draw_def)

lemma Draw_undefined:
  assumes "m_children (impl w) \<noteq> []"
    and "static_cast_size_t (ceil (m_width (impl w))) = None
         \<or> static_cast_size_t (ceil (m_height (impl w))) = None"
  shows "Draw D w = Inl UndefinedConversion"
  using assms by (auto simp: Draw_def Let_def split: option.splits)

lemma Draw_no_canvas:
  assumes "m_children (impl w) \<noteq> []"
    and "static_cast_size_t (ceil (m_width (impl w))) = Some nw"
    and "static_cast_size_t (ceil (m_height (impl w))) = Some nh"
    and "canvas_stale w"
    and "nw = 0 \<or> nh = 0 \<or> NewCanvas D nw nh = None"
  shows "\<exists>calls. Draw D w = Inr ((True, None),
                         \<lparr>impl = (impl w)\<lparr>m_count_changed := False, m_canvas := None\<rparr>,
                          heap = heap w\<rparr>, calls)
                \<and> ClearCanvas \<notin> set calls"
  using assms by (auto simp: Draw_def canvas_stale_def Let_def split: option.splits)

lemma Draw_rebuilt:
  assumes "m_children (impl w) \<noteq> []"
    and "static_cast_size_t (ceil (m_width (impl w))) = Some nw"
    and "static_cast_size_t (ceil (m_height (impl w))) = Some nh"
    and "canvas_stale w"
    and "nw \<noteq> 0" "nh \<noteq> 0" "NewCanvas D nw nh = Some cv"
    and "Draw_children D (m_children (impl w)) (heap w) True (m_has_popup (impl w))
         = (cvs, h, ch, hp)"
  shows "Draw D w = Inr ((ch, Some cv),
           \<lparr>impl = (impl w)\<lparr>m_count_changed := False, m_canvas := Some cv, m_has_popup := hp\<rparr>,
            heap = h\<rparr>,
           (if m_canvas (impl w) \<noteq> None then [Destroy] else []) @ [NewCanvas_call nw nh]
           @ (if ch then [ClearCanvas, IntersectRectClipRegion 0 0 (m_width (impl w)) (m_height (impl w))]
                         @ composite h (m_children (impl w)) cvs
                         @ (if GetDebugMode D > 0 then debug_lines cv else [])
              else []))"
  using assms by (auto simp: Draw_def canvas_stale_def Let_def split: option.splits)

lemma Draw_cached:
  assumes "m_children (impl w) \<noteq> []"
    and "static_cast_size_t (ceil (m_width (impl w))) = Some nw"
    and "static_cast_size_t (ceil (m_height (impl w))) = Some nh"
    and "\<not> canvas_stale w"
    and "Draw_children D (m_children (impl w)) (heap w) (m_count_changed (impl w))
           (m_has_popup (impl w)) = (cvs, h, ch, hp)"
  shows "Draw D w = Inr ((ch, m_canvas (impl w)),
           \<lparr>impl = (impl w)\<lparr>m_count_changed := False, m_has_popup := hp\<rparr>, heap = h\<rparr>,
           (if ch then [ClearCanvas, IntersectRectClipRegion 0 0 (m_width (impl w)) (m_height (impl w))]
                         @ composite h (m_children (impl w)) cvs
                         @ (if GetDebugMode D > 0 then debug_lines (the (m_canvas (impl w))) else [])
              else []))"
  using assms by (auto simp: Draw_def canvas_stale_def Let_def split: option.splits)


lemma Draw_returns_canvas:
  assumes first: "Draw D w = Inr ((changed1, Some canvas), w1, calls1)"
    and sized: "NewCanvas_sized D"
  shows "m_children (impl w) \<noteq> []"
    and "m_children (impl w1) = m_children (impl w)"
    and "m_width (impl w1) = m_width (impl w)" and "m_height (impl w1) = m_height (impl w)"
    and "m_canvas (impl w1) = Some canvas"
    and "\<not> m_count_changed (impl w1)"
    and "static_cast_size_t (ceil (m_width (impl w))) = Some (GetWidth canvas)"
    and "static_cast_size_t (ceil (m_height (impl w))) = Some (GetHeight canvas)"
    and "m_has_popup (impl w1) = (Some (last (m_children (impl w))) = GetPopupElement D)"
proof -
  show ne: "m_children (impl w) \<noteq> []"
    using first Draw_empty[of w D] by auto
  obtain nw nh where conv: "static_cast_size_t (ceil (m_width (impl w))) = Some nw"
      "static_cast_size_t (ceil (m_height (impl w))) = Some nh"
    using first Draw_undefined[OF ne, of D] by (cases "static_cast_size_t (ceil (m_width (impl w)))";
        cases "static_cast_size_t (ceil (m_height (impl w)))") auto
  have all: "m_children (impl w1) = m_children (impl w) \<and> m_width (impl w1) = m_width (impl w)
      \<and> m_height (impl w1) = m_height (impl w) \<and> m_canvas (impl w1) = Some canvas
      \<and> \<not> m_count_changed (impl w1) \<and> nw = GetWidth canvas \<and> nh = GetHeight canvas
      \<and> m_has_popup (impl w1) = (Some (last (m_children (impl w))) = GetPopupElement D)"
  proof (cases "canvas_stale w")
    case True
    show ?thesis
    proof (cases "nw = 0 \<or> nh = 0 \<or> NewCanvas D nw nh = None")
      case True
      from Draw_no_canvas[OF ne conv \<open>canvas_stale w\<close> True] first show ?thesis by auto
    next
      case False
      then obtain cv where cv: "nw \<noteq> 0" "nh \<noteq> 0" "NewCanvas D nw nh = Some cv" by auto
      obtain cvs h ch hp where dc:
        "Draw_children D (m_children (impl w)) (heap w) True (m_has_popup (impl w)) = (cvs, h, ch, hp)"
        by (metis prod.exhaust)
      have hp: "hp = (Some (last (m_children (impl w))) = GetPopupElement D)"
        using Draw_children_has_popup[of D "m_children (impl w)" "heap w" True "m_has_popup (impl w)"]
          dc ne by simp
      have sz: "GetWidth cv = nw \<and> GetHeight cv = nh"
        using sized cv(3) unfolding NewCanvas_sized_def by blast
      from Draw_rebuilt[OF ne conv True cv dc] first hp sz show ?thesis by auto
    qed
  next
    case False
    obtain cvs h ch hp where dc:
      "Draw_children D (m_children (impl w)) (heap w) (m_count_changed (impl w))
         (m_has_popup (impl w)) = (cvs, h, ch, hp)"
      by (metis prod.exhaust)
    have hp: "hp = (Some (last (m_children (impl w))) = GetPopupElement D)"
      using Draw_children_has_popup[of D "m_children (impl w)" "heap w" "m_count_changed (impl w)"
          "m_has_popup (impl w)"] dc ne by simp
    have sz: "m_canvas (impl w) = Some canvas \<Longrightarrow> nw = GetWidth canvas \<and> nh = GetHeight canvas"
      using False conv by (simp add: canvas_stale_def)
    from Draw_cached[OF ne conv False dc] first hp sz show ?thesis by auto
  qed
  from all conv show "m_children (impl w1) = m_children (impl w)"
    "m_width (impl w1) = m_width (impl w)" "m_height (impl w1) = m_height (impl w)"
    "m_canvas (impl w1) = Some canvas" "\<not> m_count_changed (impl w1)"
    "static_cast_size_t (ceil (m_width (impl w))) = Some (GetWidth canvas)"
    "static_cast_size_t (ceil (m_height (impl w))) = Some (GetHeight canvas)"
    "m_has_popup (impl w1) = (Some (last (m_children (impl w))) = GetPopupElement D)"
    by simp_all
qed




lemmas draw_simps = scene_def pair_def single_def collapsed_def Impl_ctor_def rect_def new_element_def
  c_str_def plain_def plain_Draw_def Draw_def Draw_child_def ClearPositionChanged_def
  static_cast_size_t_def ceil_def Let_def composite_child_def Layout_def need_update_extents_def
  pair_sized_def pair_drawn_def single_sized_def single_drawn_def settled_def SetPixelX_def

lemma plain_sized: "NewCanvas_sized (plain p)"
  by (auto simp: NewCanvas_sized_def plain_def)


subsection \<open>Drawing twice\<close>

text \<open>
  Claim C6, as amended. If \<open>Draw\<close> has returned a surface, no child of the collection is
  the view's popup element, a canvas that the graphics object creates has the dimensions
  asked for, and the children are idle in the state that call left (each, drawn again,
  reports no change and has its position-changed flag down), then a second \<open>Draw\<close> right
  after it reports \<open>changed = false\<close> and returns the same surface, with no call made on
  the canvas or on the graphics object: the canvas is neither destroyed nor created anew.
\<close>

theorem Draw_twice:
  assumes "Draw D w = Inr ((changed1, Some canvas), w1, calls1)"
    and "NewCanvas_sized D"
    and "GetPopupElement D \<notin> Some ` set (m_children (impl w))"
    and "children_idle D (m_children (impl w1)) (heap w1)"
  shows "\<exists>w2. Draw D w1 = Inr ((False, Some canvas), w2, []) \<and> m_canvas (impl w2) = Some canvas"
proof -
  note f = Draw_returns_canvas[OF assms(1,2)]
  have ne: "m_children (impl w1) \<noteq> []" using f by simp
  have conv: "static_cast_size_t (ceil (m_width (impl w1))) = Some (GetWidth canvas)"
    "static_cast_size_t (ceil (m_height (impl w1))) = Some (GetHeight canvas)"
    using f by simp_all
  have fresh: "\<not> canvas_stale w1" using f conv by (simp add: canvas_stale_def)
  have "last (m_children (impl w)) \<in> set (m_children (impl w))" using f(1) by simp
  then have "Some (last (m_children (impl w))) \<noteq> GetPopupElement D"
    using assms(3) by (metis imageI)
  then have hp: "\<not> m_has_popup (impl w1)" using f(9) by simp
  obtain cvs h ch hp' where dc:
    "Draw_children D (m_children (impl w1)) (heap w1) (m_count_changed (impl w1))
       (m_has_popup (impl w1)) = (cvs, h, ch, hp')"
    by (metis prod.exhaust)
  have "\<not> ch"
    using Draw_children_idle[OF assms(4)] assms(3) f(2,6) hp dc by simp
  with Draw_cached[OF ne conv fresh dc] f(5) show ?thesis by simp
qed

theorem Draw_twice_witness:
  "Layout (plain None) pair = Inr pair_sized
   \<and> Draw (plain None) pair_sized
       = Inr ((True, Some \<lparr>GetWidth = 200, GetHeight = 200\<rparr>), pair_drawn,
              [NewCanvas_call 200 200, ClearCanvas, IntersectRectClipRegion 0 0 200 200,
               PushState, TranslateCoordinates 0 0, DrawCanvas 0 0 1, PopState,
               PushState, TranslateCoordinates 50 50, DrawCanvas 0 0 2, PopState])
   \<and> children_idle (plain None) (m_children (impl pair_drawn)) (heap pair_drawn)
   \<and> (\<exists>w2. Draw (plain None) pair_drawn
              = Inr ((False, Some \<lparr>GetWidth = 200, GetHeight = 200\<rparr>), w2, []))"
proof -
  have L: "Layout (plain None) pair = Inr pair_sized"
    by (simp add: draw_simps)
  have F: "Draw (plain None) pair_sized
       = Inr ((True, Some \<lparr>GetWidth = 200, GetHeight = 200\<rparr>), pair_drawn,
              [NewCanvas_call 200 200, ClearCanvas, IntersectRectClipRegion 0 0 200 200,
               PushState, TranslateCoordinates 0 0, DrawCanvas 0 0 1, PopState,
               PushState, TranslateCoordinates 50 50, DrawCanvas 0 0 2, PopState])"
    by (simp add: draw_simps)
  have P: "GetPopupElement (plain None) \<notin> Some ` set (m_children (impl pair_sized))"
    by (simp add: plain_def)
  have I: "children_idle (plain None) (m_children (impl pair_drawn)) (heap pair_drawn)"
    by (simp add: draw_simps)
  from Draw_twice[OF F plain_sized P I] L F I show ?thesis by blast
qed

text \<open>
  The claim as stated fails when no surface can be cached: the two rectangles in an
  element of no extent. \<open>Layout\<close> gives the collection the extent 0 by 0, and every
  \<open>Draw\<close> reports \<open>changed = true\<close> and returns NULL, the second as the first.
\<close>

theorem Draw_twice_no_canvas:
  "Layout (plain None) collapsed = Inr collapsed
   \<and> Draw (plain None) collapsed
       = Inr ((True, None), collapsed\<lparr>impl := (impl collapsed)\<lparr>m_count_changed := False\<rparr>\<rparr>, [])
   \<and> Draw (plain None) (collapsed\<lparr>impl := (impl collapsed)\<lparr>m_count_changed := False\<rparr>\<rparr>)
       = Inr ((True, None), collapsed\<lparr>impl := (impl collapsed)\<lparr>m_count_changed := False\<rparr>\<rparr>, [])"
  by (simp add: draw_simps)

subsection \<open>Drawing after a change\<close>




subsection \<open>The popup element among other children\<close>

lemma Draw_children_popup_flip:
  "\<exists>c \<in> set cs. (Some c = GetPopupElement D) \<noteq> hp \<Longrightarrow>
   fst (snd (snd (Draw_children D cs h ch hp)))"
proof (induction cs arbitrary: h ch hp)
  case Nil
  then show ?case by simp
next
  case (Cons c cs)
  obtain cv h1 ch1 hp1 where s: "Draw_child D c h ch hp = (cv, h1, ch1, hp1)"
    by (metis prod.exhaust)
  have hp1: "hp1 = (Some c = GetPopupElement D)"
    using Draw_child_has_popup[of D c h ch hp] s by simp
  show ?case
  proof (cases "(Some c = GetPopupElement D) \<noteq> hp")
    case True
    have "ch1"
    proof (cases "Some c = GetPopupElement D")
      case p: True
      with True s show ?thesis by (simp add: Draw_child_popup)
    next
      case np: False
      obtain cv' cc h' where d: "BasicElement_Draw D c h = ((cv', cc), h')" by (metis prod.exhaust)
      from True np s show ?thesis by (simp add: Draw_child_other[OF np d])
    qed
    from Draw_children_changed_mono[OF this] show ?thesis
      unfolding Draw_children_Cons[OF s] by simp
  next
    case False
    with Cons.prems have "\<exists>x \<in> set cs. (Some x = GetPopupElement D) \<noteq> hp1"
      using hp1 by auto
    from Cons.IH[OF this] show ?thesis unfolding Draw_children_Cons[OF s] by simp
  qed
qed

text \<open>
  A further property. \<open>Draw\<close> compares \<open>has_popup_\<close> with each child in turn, so
  when the view's popup element is a child and another child is not, the flag is set and
  reset within one pass of the loop: every \<open>Draw\<close> that returns a surface reports
  \<open>changed = true\<close>, whatever the state it is called in. In the example the drawn pair,
  with element 1 as the popup element, is composited again and gives back the very state
  it was called in.
\<close>

theorem Draw_popup_among_children:
  assumes "Draw D w = Inr ((changed, Some canvas), w1, calls)"
    and "\<exists>c \<in> set (m_children (impl w)). Some c = GetPopupElement D"
    and "\<exists>c \<in> set (m_children (impl w)). Some c \<noteq> GetPopupElement D"
  shows "changed"
proof -
  let ?cs = "m_children (impl w)"
  have ne: "?cs \<noteq> []" using assms(2) by auto
  obtain nw nh where conv: "static_cast_size_t (ceil (m_width (impl w))) = Some nw"
      "static_cast_size_t (ceil (m_height (impl w))) = Some nh"
    using assms(1) Draw_undefined[OF ne, of D]
    by (cases "static_cast_size_t (ceil (m_width (impl w)))";
        cases "static_cast_size_t (ceil (m_height (impl w)))") auto
  show ?thesis
  proof (cases "canvas_stale w")
    case True
    show ?thesis
    proof (cases "nw = 0 \<or> nh = 0 \<or> NewCanvas D nw nh = None")
      case nc: True
      from Draw_no_canvas[OF ne conv True nc] assms(1) show ?thesis by auto
    next
      case False
      then obtain cv where cv: "nw \<noteq> 0" "nh \<noteq> 0" "NewCanvas D nw nh = Some cv" by auto
      obtain cvs h ch hp where dc:
        "Draw_children D ?cs (heap w) True (m_has_popup (impl w)) = (cvs, h, ch, hp)"
        by (metis prod.exhaust)
      have ch using Draw_children_changed_mono[of True D ?cs "heap w" "m_has_popup (impl w)"] dc
        by simp
      with Draw_rebuilt[OF ne conv True cv dc] assms(1) show ?thesis by simp
    qed
  next
    case False
    obtain cvs h ch hp where dc:
      "Draw_children D ?cs (heap w) (m_count_changed (impl w)) (m_has_popup (impl w)) = (cvs, h, ch, hp)"
      by (metis prod.exhaust)
    have "\<exists>c \<in> set ?cs. (Some c = GetPopupElement D) \<noteq> m_has_popup (impl w)"
      using assms(2,3) by (cases "m_has_popup (impl w)") auto
    from Draw_children_popup_flip[OF this, of "heap w" "m_count_changed (impl w)"] dc
    have ch by simp
    with Draw_cached[OF ne conv False dc] assms(1) show ?thesis by simp
  qed
qed

theorem Draw_popup_among_children_witness:
  "(\<exists>c \<in> set (m_children (impl pair_drawn)). Some c = GetPopupElement (plain (Some 1)))
   \<and> (\<exists>c \<in> set (m_children (impl pair_drawn)). Some c \<noteq> GetPopupElement (plain (Some 1)))
   \<and> Draw (plain (Some 1)) pair_drawn
     = Inr ((True, Some \<lparr>GetWidth = 200, GetHeight = 200\<rparr>), pair_drawn,
            [ClearCanvas, IntersectRectClipRegion 0 0 200 200,
             PushState, TranslateCoordinates 50 50, DrawCanvas 0 0 2, PopState])"
proof -
  have E: "Draw (plain (Some 1)) pair_drawn
     = Inr ((True, Some \<lparr>GetWidth = 200, GetHeight = 200\<rparr>), pair_drawn,
            [ClearCanvas, IntersectRectClipRegion 0 0 200 200,
             PushState, TranslateCoordinates 50 50, DrawCanvas 0 0 2, PopState])"
    by (simp add: draw_simps)
  have P: "\<exists>c \<in> set (m_children (impl pair_drawn)). Some c = GetPopupElement (plain (Some 1))"
    "\<exists>c \<in> set (m_children (impl pair_drawn)). Some c \<noteq> GetPopupElement (plain (Some 1))"
    by (simp_all add: draw_simps)
  from Draw_popup_among_children[OF E P] E P show ?thesis by blast
qed

section \<open>Layout\<close>








section \<open>Hit testing of an image\<close>






end
